theory Spec2Isabelle
  imports Main
begin

section \<open>The object store\<close>

text \<open>
  The TypeScript program builds a graph of mutable objects that refer to each other
  (a parent's \<^verbatim>\<open>_children\<close> array holds the child objects, a child's
  \<^verbatim>\<open>_parent\<close> field holds the parent object), and equality of nodes is
  object identity (\<^verbatim>\<open>indexOf\<close>). The model is an explicit store: an object
  reference is an index into the list of all objects allocated so far.

  The concrete class of an object and its public attribute (\<^verbatim>\<open>title\<close>,
  \<^verbatim>\<open>imageUrl\<close>, \<^verbatim>\<open>sourceCode\<close>, \<^verbatim>\<open>text\<close>) are its
  \<open>kind\<close>. The two private fields of \<^verbatim>\<open>Node\<close> and \<^verbatim>\<open>TypedNode\<close>
  are \<open>priv_parent\<close> (\<^verbatim>\<open>_parent\<close>; \<open>None\<close> is \<^verbatim>\<open>undefined\<close> or
  \<^verbatim>\<open>null\<close>) and \<open>priv_children\<close> (\<^verbatim>\<open>_children\<close>; \<open>None\<close> is
  \<^verbatim>\<open>undefined\<close>, the value of the field while the constructor of the base class
  runs, before the field initialiser \<^verbatim>\<open>= []\<close> of \<^verbatim>\<open>TypedNode\<close>).
\<close>

type_synonym ref = nat

datatype kind =
    Notebook string
  | Page string
  | ImageCell string
  | SourceCodeCell string
  | TextCell string

record node =
  kind :: kind
  priv_parent :: "ref option"
  priv_children :: "ref list option"

type_synonym heap = "node list"

text \<open>
  Failures are values. \<open>TypeError\<close> is JavaScript's error for a member access on
  \<^verbatim>\<open>undefined\<close> and for a call of a method the receiver does not have.
  \<open>InvalidRef\<close> is a reference to an object that was never allocated, which no
  TypeScript expression can produce; the model reports it instead of reading the store
  out of range. \<open>OutOfFuel\<close> is a recursion that did not return within the given depth.
\<close>

datatype error = InvalidRef | TypeError | OutOfFuel

definition deref :: "heap \<Rightarrow> ref \<Rightarrow> error + node" where
  "deref h r = (if r < length h then Inr (h ! r) else Inl InvalidRef)"

text \<open>Sequencing of fallible steps: the first failure ends the computation.\<close>

definition bindR :: "error + 'a \<Rightarrow> ('a \<Rightarrow> error + 'b) \<Rightarrow> error + 'b" where
  "bindR m f = (case m of Inl e \<Rightarrow> Inl e | Inr x \<Rightarrow> f x)"

section \<open>Arrays\<close>

text \<open>
  \<^verbatim>\<open>Array.prototype.indexOf(x, fromIndex)\<close> with a starting index inside the array:
  the index of the first element from there on that is identical to \<open>x\<close>, or \<open>-1\<close>.
  The third argument is the index of the head of the list that is still to be searched.
\<close>

fun indexOf :: "'a list \<Rightarrow> 'a \<Rightarrow> nat \<Rightarrow> int" where
  "indexOf [] x i = - 1"
| "indexOf (y # ys) x i = (if y = x then int i else indexOf ys x (Suc i))"

text \<open>\<^verbatim>\<open>splice(start, deleteCount)\<close> without inserted items, and \<^verbatim>\<open>push\<close>.\<close>

definition splice :: "'a list \<Rightarrow> nat \<Rightarrow> nat \<Rightarrow> 'a list" where
  "splice xs start deleteCount = take start xs @ drop (start + deleteCount) xs"

definition push :: "'a list \<Rightarrow> 'a \<Rightarrow> 'a list" where
  "push xs x = xs @ [x]"

section \<open>Node and TypedNode (Tree.ts)\<close>

text \<open>\<^verbatim>\<open>get parent()\<close>: returns \<^verbatim>\<open>this._parent\<close>.\<close>

definition get_parent :: "heap \<Rightarrow> ref \<Rightarrow> error + ref option" where
  "get_parent h this = bindR (deref h this) (\<lambda>nd. Inr (priv_parent nd))"

text \<open>\<^verbatim>\<open>get children()\<close>: returns \<^verbatim>\<open>this._children\<close>.\<close>

definition get_children :: "heap \<Rightarrow> ref \<Rightarrow> error + ref list option" where
  "get_children h this = bindR (deref h this) (\<lambda>nd. Inr (priv_children nd))"

text \<open>
  \<^verbatim>\<open>getIndexOfChild(child)\<close>: \<^verbatim>\<open>this._children.indexOf(child, 0)\<close>, a
  \<open>TypeError\<close> when \<^verbatim>\<open>_children\<close> is still \<^verbatim>\<open>undefined\<close>.
\<close>

definition getIndexOfChild :: "heap \<Rightarrow> ref \<Rightarrow> ref \<Rightarrow> error + int" where
  "getIndexOfChild h this child =
     bindR (get_children h this)
       (\<lambda>cs. case cs of None \<Rightarrow> Inl TypeError | Some xs \<Rightarrow> Inr (indexOf xs child 0))"

text \<open>The write \<^verbatim>\<open>this._children = f(this._children)\<close> of an in-place array update.\<close>

definition update_children :: "heap \<Rightarrow> ref \<Rightarrow> (ref list \<Rightarrow> ref list) \<Rightarrow> heap" where
  "update_children h this f =
     h[this := (h ! this)\<lparr>priv_children := map_option f (priv_children (h ! this))\<rparr>]"

definition removeChild :: "heap \<Rightarrow> ref \<Rightarrow> ref \<Rightarrow> error + heap" where
  "removeChild h this child =
     bindR (getIndexOfChild h this child)
       (\<lambda>index. if index < 0 then Inr h
                else Inr (update_children h this (\<lambda>xs. splice xs (nat index) 1)))"

definition addChild :: "heap \<Rightarrow> ref \<Rightarrow> ref \<Rightarrow> error + heap" where
  "addChild h this item =
     bindR (getIndexOfChild h this item)
       (\<lambda>index. if index \<ge> 0 then Inr h
                else Inr (update_children h this (\<lambda>xs. push xs item)))"

text \<open>
  \<^verbatim>\<open>set parent(value)\<close>: if the getter returns an object, remove \<open>this\<close> from its
  children; if \<open>value\<close> is an object, add \<open>this\<close> to its children. The setter has no
  assignment to \<^verbatim>\<open>_parent\<close>, and neither has the model.
\<close>

definition set_parent :: "heap \<Rightarrow> ref \<Rightarrow> ref option \<Rightarrow> error + heap" where
  "set_parent h this v =
     bindR (get_parent h this)
       (\<lambda>old. bindR (case old of None \<Rightarrow> Inr h | Some p \<Rightarrow> removeChild h p this)
          (\<lambda>h1. case v of None \<Rightarrow> Inr h1 | Some p \<Rightarrow> addChild h1 p this))"

text \<open>
  Construction of a node of class \<open>k\<close>, through the constructor chain
  \<^verbatim>\<open>Node \<leftarrow> TypedNode \<leftarrow> concrete class\<close>: the object is allocated with both private
  fields \<^verbatim>\<open>undefined\<close>, the constructor of \<^verbatim>\<open>Node\<close> runs
  \<^verbatim>\<open>this.parent = parent\<close>, and after it returns the field initialiser of
  \<^verbatim>\<open>TypedNode\<close> sets \<^verbatim>\<open>_children\<close> to the empty array. (The public
  attribute is assigned after the base constructor as well; nothing reads it before.)
\<close>

definition new_node :: "heap \<Rightarrow> kind \<Rightarrow> ref option \<Rightarrow> error + ref \<times> heap" where
  "new_node h k parent =
     (let this = length h;
          h0 = h @ [\<lparr>kind = k, priv_parent = None, priv_children = None\<rparr>]
      in bindR (set_parent h0 this parent)
           (\<lambda>h1. Inr (this, h1[this := (h1 ! this)\<lparr>priv_children := Some []\<rparr>])))"

section \<open>The domain model (Notebook.ts)\<close>

text \<open>\<^verbatim>\<open>new Notebook(title)\<close> calls \<^verbatim>\<open>super(null)\<close>.\<close>

definition new_Notebook :: "heap \<Rightarrow> string \<Rightarrow> error + ref \<times> heap" where
  "new_Notebook h title = new_node h (Notebook title) None"

text \<open>\<^verbatim>\<open>new Page(parent, title)\<close> calls \<^verbatim>\<open>super(parent)\<close>.\<close>

definition new_Page :: "heap \<Rightarrow> ref option \<Rightarrow> string \<Rightarrow> error + ref \<times> heap" where
  "new_Page h parent title = new_node h (Page title) parent"

text \<open>The three cell constructors call \<^verbatim>\<open>super()\<close>: the parent is \<^verbatim>\<open>undefined\<close>.\<close>

definition new_ImageCell :: "heap \<Rightarrow> string \<Rightarrow> error + ref \<times> heap" where
  "new_ImageCell h imageUrl = new_node h (ImageCell imageUrl) None"

definition new_SourceCodeCell :: "heap \<Rightarrow> string \<Rightarrow> error + ref \<times> heap" where
  "new_SourceCodeCell h sourceCode = new_node h (SourceCodeCell sourceCode) None"

definition new_TextCell :: "heap \<Rightarrow> string \<Rightarrow> error + ref \<times> heap" where
  "new_TextCell h text = new_node h (TextCell text) None"

text \<open>
  \<^verbatim>\<open>Notebook.createPage(title)\<close> returns \<^verbatim>\<open>new Page(this, title)\<close>. Only a
  \<^verbatim>\<open>Notebook\<close> has the method.
\<close>

definition createPage :: "heap \<Rightarrow> ref \<Rightarrow> string \<Rightarrow> error + ref \<times> heap" where
  "createPage h this title =
     bindR (deref h this)
       (\<lambda>nd. case kind nd of
                Notebook _ \<Rightarrow> new_Page h (Some this) title
              | _ \<Rightarrow> Inl TypeError)"

text \<open>
  \<^verbatim>\<open>Page.addCell(cell)\<close> runs \<^verbatim>\<open>cell.parent = this\<close>. Only a \<^verbatim>\<open>Page\<close>
  has the method.
\<close>

definition addCell :: "heap \<Rightarrow> ref \<Rightarrow> ref \<Rightarrow> error + heap" where
  "addCell h this cell =
     bindR (deref h this)
       (\<lambda>nd. case kind nd of
                Page _ \<Rightarrow> set_parent h cell (Some this)
              | _ \<Rightarrow> Inl TypeError)"

text \<open>The views \<^verbatim>\<open>pages\<close> and \<^verbatim>\<open>cells\<close> both return \<^verbatim>\<open>this.children\<close>.\<close>

definition pages :: "heap \<Rightarrow> ref \<Rightarrow> error + ref list option" where
  "pages h this = get_children h this"

definition cells :: "heap \<Rightarrow> ref \<Rightarrow> error + ref list option" where
  "cells h this = get_children h this"

section \<open>The exporters (Tree.ts)\<close>

text \<open>
  An exporter operation runs in a state made of the object store and the exporter object
  itself, and returns the state it leaves behind.

  \<^verbatim>\<open>Node.export(exporter)\<close> is dynamically dispatched on the class of the receiver;
  each implementation calls the exporter operation named after its class, passing
  \<open>this\<close>. The operations \<^verbatim>\<open>exportNotebook\<close> and \<^verbatim>\<open>exportPage\<close> call
  \<^verbatim>\<open>export(this)\<close> on each child in turn: in the model that dispatched method is
  their first parameter \<open>export\<close>, and the loops \<^verbatim>\<open>for (const page of
  notebook.pages)\<close> and \<^verbatim>\<open>for (const cell of page.cells)\<close> are folds over the
  array. The recursion is closed in \<open>html_export\<close> and \<open>xml_export\<close>, where every
  dispatched call uses up one unit of fuel, so the fuel bounds the depth of the recursion.

  An exporter operation reads the attribute that the static type of its parameter
  promises; the model answers \<open>TypeError\<close> for a node of another class, which the
  dispatch never passes.
\<close>

record HtmlExporter =
  priv_html :: string

type_synonym html_state = "heap \<times> HtmlExporter"

definition new_HtmlExporter :: HtmlExporter where
  "new_HtmlExporter = \<lparr>priv_html = []\<rparr>"

definition html :: "HtmlExporter \<Rightarrow> string" where
  "html e = priv_html e"

definition appendHtmlLine :: "HtmlExporter \<Rightarrow> string \<Rightarrow> HtmlExporter" where
  "appendHtmlLine e l = e\<lparr>priv_html := priv_html e @ ([CHR 0x0A] @ l)\<rparr>"

definition html_exportTextCell :: "ref \<Rightarrow> html_state \<Rightarrow> error + html_state" where
  "html_exportTextCell cell s =
     bindR (deref (fst s) cell)
       (\<lambda>nd. case kind nd of
                TextCell text \<Rightarrow>
                  Inr (fst s, appendHtmlLine (snd s) (''<p>'' @ text @ ''</p>''))
              | _ \<Rightarrow> Inl TypeError)"

definition html_exportSourceCodeCell :: "ref \<Rightarrow> html_state \<Rightarrow> error + html_state" where
  "html_exportSourceCodeCell cell s =
     bindR (deref (fst s) cell)
       (\<lambda>nd. case kind nd of
                SourceCodeCell sourceCode \<Rightarrow>
                  Inr (fst s, appendHtmlLine (snd s) (''<code>'' @ sourceCode @ ''</code>''))
              | _ \<Rightarrow> Inl TypeError)"

definition html_exportImageCell :: "ref \<Rightarrow> html_state \<Rightarrow> error + html_state" where
  \<open>html_exportImageCell cell s =
     bindR (deref (fst s) cell)
       (\<lambda>nd. case kind nd of
                ImageCell imageUrl \<Rightarrow>
                  Inr (fst s, appendHtmlLine (snd s) (''<img src="'' @ imageUrl @ ''">''))
              | _ \<Rightarrow> Inl TypeError)\<close>

definition html_exportNotebook ::
  "(ref \<Rightarrow> html_state \<Rightarrow> error + html_state) \<Rightarrow> ref \<Rightarrow> html_state \<Rightarrow> error + html_state"
where
  \<open>html_exportNotebook export notebook s =
     bindR (deref (fst s) notebook)
       (\<lambda>nd. case kind nd of
                Notebook title \<Rightarrow>
                  (let s1 = (fst s, appendHtmlLine (snd s) ''<main class="notebook">'');
                       s2 = (fst s1, appendHtmlLine (snd s1) (''<h1>'' @ title @ ''</h1>''))
                   in bindR (pages (fst s2) notebook)
                        (\<lambda>ps. case ps of
                                None \<Rightarrow> Inl TypeError
                              | Some ps \<Rightarrow>
                                  bindR (fold (\<lambda>page acc. bindR acc (export page)) ps (Inr s2))
                                    (\<lambda>s3. Inr (fst s3, appendHtmlLine (snd s3) ''</main>''))))
              | _ \<Rightarrow> Inl TypeError)\<close>

definition html_exportPage ::
  "(ref \<Rightarrow> html_state \<Rightarrow> error + html_state) \<Rightarrow> ref \<Rightarrow> html_state \<Rightarrow> error + html_state"
where
  \<open>html_exportPage export page s =
     bindR (deref (fst s) page)
       (\<lambda>nd. case kind nd of
                Page title \<Rightarrow>
                  (let s1 = (fst s, appendHtmlLine (snd s) ''<section class="page">'');
                       s2 = (fst s1, appendHtmlLine (snd s1) (''<h2>'' @ title @ ''</h2>''))
                   in bindR (cells (fst s2) page)
                        (\<lambda>cs. case cs of
                                None \<Rightarrow> Inl TypeError
                              | Some cs \<Rightarrow>
                                  bindR (fold (\<lambda>cell acc. bindR acc (export cell)) cs (Inr s2))
                                    (\<lambda>s3. Inr (fst s3, appendHtmlLine (snd s3) ''</section>''))))
              | _ \<Rightarrow> Inl TypeError)\<close>

fun html_export :: "nat \<Rightarrow> ref \<Rightarrow> html_state \<Rightarrow> error + html_state" where
  "html_export 0 this s = Inl OutOfFuel"
| "html_export (Suc fuel) this s =
     bindR (deref (fst s) this)
       (\<lambda>nd. case kind nd of
                Notebook _ \<Rightarrow> html_exportNotebook (html_export fuel) this s
              | Page _ \<Rightarrow> html_exportPage (html_export fuel) this s
              | ImageCell _ \<Rightarrow> html_exportImageCell this s
              | SourceCodeCell _ \<Rightarrow> html_exportSourceCodeCell this s
              | TextCell _ \<Rightarrow> html_exportTextCell this s)"

record XmlExporter =
  priv_xml :: string

type_synonym xml_state = "heap \<times> XmlExporter"

definition new_XmlExporter :: XmlExporter where
  \<open>new_XmlExporter = \<lparr>priv_xml = ''<?xml version="1.0" encoding="UTF-8"?>''\<rparr>\<close>

definition xml :: "XmlExporter \<Rightarrow> string" where
  "xml e = priv_xml e"

definition appendXmlLine :: "XmlExporter \<Rightarrow> string \<Rightarrow> XmlExporter" where
  "appendXmlLine e l = e\<lparr>priv_xml := priv_xml e @ ([CHR 0x0A] @ l)\<rparr>"

definition xml_exportTextCell :: "ref \<Rightarrow> xml_state \<Rightarrow> error + xml_state" where
  "xml_exportTextCell cell s =
     bindR (deref (fst s) cell)
       (\<lambda>nd. case kind nd of
                TextCell text \<Rightarrow>
                  Inr (fst s, appendXmlLine (snd s) (''<text>'' @ text @ ''</text>''))
              | _ \<Rightarrow> Inl TypeError)"

definition xml_exportSourceCodeCell :: "ref \<Rightarrow> xml_state \<Rightarrow> error + xml_state" where
  "xml_exportSourceCodeCell cell s =
     bindR (deref (fst s) cell)
       (\<lambda>nd. case kind nd of
                SourceCodeCell sourceCode \<Rightarrow>
                  Inr (fst s, appendXmlLine (snd s) (''<code>'' @ sourceCode @ ''</code>''))
              | _ \<Rightarrow> Inl TypeError)"

definition xml_exportImageCell :: "ref \<Rightarrow> xml_state \<Rightarrow> error + xml_state" where
  \<open>xml_exportImageCell cell s =
     bindR (deref (fst s) cell)
       (\<lambda>nd. case kind nd of
                ImageCell imageUrl \<Rightarrow>
                  Inr (fst s, appendXmlLine (snd s) (''<image url="'' @ imageUrl @ ''" />''))
              | _ \<Rightarrow> Inl TypeError)\<close>

definition xml_exportNotebook ::
  "(ref \<Rightarrow> xml_state \<Rightarrow> error + xml_state) \<Rightarrow> ref \<Rightarrow> xml_state \<Rightarrow> error + xml_state"
where
  \<open>xml_exportNotebook export notebook s =
     bindR (deref (fst s) notebook)
       (\<lambda>nd. case kind nd of
                Notebook title \<Rightarrow>
                  (let s1 = (fst s, appendXmlLine (snd s) (''<notebook title="'' @ title @ ''">''))
                   in bindR (pages (fst s1) notebook)
                        (\<lambda>ps. case ps of
                                None \<Rightarrow> Inl TypeError
                              | Some ps \<Rightarrow>
                                  bindR (fold (\<lambda>page acc. bindR acc (export page)) ps (Inr s1))
                                    (\<lambda>s2. Inr (fst s2, appendXmlLine (snd s2) ''</notebook>''))))
              | _ \<Rightarrow> Inl TypeError)\<close>

definition xml_exportPage ::
  "(ref \<Rightarrow> xml_state \<Rightarrow> error + xml_state) \<Rightarrow> ref \<Rightarrow> xml_state \<Rightarrow> error + xml_state"
where
  \<open>xml_exportPage export page s =
     bindR (deref (fst s) page)
       (\<lambda>nd. case kind nd of
                Page title \<Rightarrow>
                  (let s1 = (fst s, appendXmlLine (snd s) (''<page title="'' @ title @ ''">''))
                   in bindR (cells (fst s1) page)
                        (\<lambda>cs. case cs of
                                None \<Rightarrow> Inl TypeError
                              | Some cs \<Rightarrow>
                                  bindR (fold (\<lambda>cell acc. bindR acc (export cell)) cs (Inr s1))
                                    (\<lambda>s2. Inr (fst s2, appendXmlLine (snd s2) ''</page>''))))
              | _ \<Rightarrow> Inl TypeError)\<close>

fun xml_export :: "nat \<Rightarrow> ref \<Rightarrow> xml_state \<Rightarrow> error + xml_state" where
  "xml_export 0 this s = Inl OutOfFuel"
| "xml_export (Suc fuel) this s =
     bindR (deref (fst s) this)
       (\<lambda>nd. case kind nd of
                Notebook _ \<Rightarrow> xml_exportNotebook (xml_export fuel) this s
              | Page _ \<Rightarrow> xml_exportPage (xml_export fuel) this s
              | ImageCell _ \<Rightarrow> xml_exportImageCell this s
              | SourceCodeCell _ \<Rightarrow> xml_exportSourceCodeCell this s
              | TextCell _ \<Rightarrow> xml_exportTextCell this s)"

section \<open>Programs over the public operations\<close>

text \<open>
  A client of the two modules can construct nodes, call \<^verbatim>\<open>createPage\<close> and
  \<^verbatim>\<open>addCell\<close>, and assign to the public property \<^verbatim>\<open>parent\<close> of any node.
  A sequence of such calls, run from a store, gives the stores that a program can reach.
  The constructor of \<^verbatim>\<open>Page\<close> is public, so it is an operation of its own.
\<close>

datatype op =
    NewNotebook string
  | NewPage "ref option" string
  | NewImageCell string
  | NewSourceCodeCell string
  | NewTextCell string
  | CreatePage ref string
  | AddCell ref ref
  | SetParent ref "ref option"

fun step :: "heap \<Rightarrow> op \<Rightarrow> error + heap" where
  "step h (NewNotebook title) = bindR (new_Notebook h title) (\<lambda>r. Inr (snd r))"
| "step h (NewPage parent title) = bindR (new_Page h parent title) (\<lambda>r. Inr (snd r))"
| "step h (NewImageCell imageUrl) = bindR (new_ImageCell h imageUrl) (\<lambda>r. Inr (snd r))"
| "step h (NewSourceCodeCell sourceCode) =
     bindR (new_SourceCodeCell h sourceCode) (\<lambda>r. Inr (snd r))"
| "step h (NewTextCell text) = bindR (new_TextCell h text) (\<lambda>r. Inr (snd r))"
| "step h (CreatePage notebook title) = bindR (createPage h notebook title) (\<lambda>r. Inr (snd r))"
| "step h (AddCell page cell) = addCell h page cell"
| "step h (SetParent this v) = set_parent h this v"

fun run :: "heap \<Rightarrow> op list \<Rightarrow> error + heap" where
  "run h [] = Inr h"
| "run h (x # xs) = bindR (step h x) (\<lambda>h'. run h' xs)"

text \<open>
  The state of a store between two operations: every object has its array of children,
  the array holds allocated objects and no object twice, and \<^verbatim>\<open>_parent\<close> is unset.
\<close>

definition node_ok :: "nat \<Rightarrow> node \<Rightarrow> bool" where
  "node_ok n nd =
     (priv_parent nd = None \<and>
      (case priv_children nd of
         None \<Rightarrow> False
       | Some cs \<Rightarrow> distinct cs \<and> list_all (\<lambda>c. c < n) cs))"

definition heap_ok :: "heap \<Rightarrow> bool" where
  "heap_ok h = list_all (node_ok (length h)) h"

text \<open>
  A store is acyclic when some rank decreases strictly from every object to each of its
  children.
\<close>

definition acyclic_by :: "(ref \<Rightarrow> nat) \<Rightarrow> heap \<Rightarrow> bool" where
  "acyclic_by rank h =
     list_all (\<lambda>n. case priv_children (h ! n) of
                      None \<Rightarrow> True
                    | Some cs \<Rightarrow> list_all (\<lambda>c. rank c < rank n) cs)
       [0 ..< length h]"

section \<open>The sample notebook (the driver program)\<close>

text \<open>
  The driver builds a notebook with two pages through the public operations, the first
  page with an image cell, a source code cell and a text cell, the second with a text
  cell. The URL of the image is a parameter.
\<close>

definition sample_notebook :: "string \<Rightarrow> error + ref \<times> heap" where
  "sample_notebook imageUrl =
     bindR (new_Notebook [] ''My Coding Ideas'') (\<lambda>(notebook, h).
     bindR (createPage h notebook ''First Page'') (\<lambda>(page1, h).
     bindR (new_ImageCell h imageUrl) (\<lambda>(c1, h).
     bindR (addCell h page1 c1) (\<lambda>h.
     bindR (new_SourceCodeCell h ''alert('Hello, World!');'') (\<lambda>(c2, h).
     bindR (addCell h page1 c2) (\<lambda>h.
     bindR (new_TextCell h ''Hello, World!'') (\<lambda>(c3, h).
     bindR (addCell h page1 c3) (\<lambda>h.
     bindR (createPage h notebook ''Second Page'') (\<lambda>(page2, h).
     bindR (new_TextCell h ''Bye, World!'') (\<lambda>(c4, h).
     bindR (addCell h page2 c4) (\<lambda>h.
     Inr (notebook, h))))))))))))"

text \<open>
  \<^verbatim>\<open>notebook.export(new HtmlExporter())\<close> followed by a read of \<^verbatim>\<open>html\<close>, and the
  same with an \<^verbatim>\<open>XmlExporter\<close> and \<^verbatim>\<open>xml\<close>.
\<close>

definition sample_html :: "nat \<Rightarrow> string \<Rightarrow> error + string" where
  "sample_html fuel imageUrl =
     bindR (sample_notebook imageUrl) (\<lambda>(notebook, h).
     bindR (html_export fuel notebook (h, new_HtmlExporter)) (\<lambda>(h', e).
     Inr (html e)))"

definition sample_xml :: "nat \<Rightarrow> string \<Rightarrow> error + string" where
  "sample_xml fuel imageUrl =
     bindR (sample_notebook imageUrl) (\<lambda>(notebook, h).
     bindR (xml_export fuel notebook (h, new_XmlExporter)) (\<lambda>(h', e).
     Inr (xml e)))"

text \<open>The lines of a text, each one joined with a leading newline.\<close>

definition join_lines :: "string list \<Rightarrow> string" where
  "join_lines ls = concat (map (\<lambda>l. CHR 0x0A # l) ls)"

section \<open>Small programs used as test inputs\<close>

text \<open>
  A notebook with one page that holds one text cell, and the store it leaves.
\<close>

definition tiny_ops :: "op list" where
  "tiny_ops = [NewNotebook ''N'', CreatePage 0 ''P'', NewTextCell ''T'', AddCell 1 2]"

definition tiny_heap :: heap where
  "tiny_heap =
     [\<lparr>kind = Notebook ''N'', priv_parent = None, priv_children = Some [1]\<rparr>,
      \<lparr>kind = Page ''P'', priv_parent = None, priv_children = Some [2]\<rparr>,
      \<lparr>kind = TextCell ''T'', priv_parent = None, priv_children = Some []\<rparr>]"

text \<open>
  A notebook (object 0) with two pages (objects 1 and 2); one text cell (object 3) is
  added to the first page and then to the second.
\<close>

definition shared_cell_ops :: "op list" where
  "shared_cell_ops =
     [NewNotebook ''N'', CreatePage 0 ''A'', CreatePage 0 ''B'', NewTextCell ''T'',
      AddCell 1 3, AddCell 2 3]"

text \<open>
  A page (object 1) with two text cells (objects 2 and 3, added in this order); the
  first cell then gets \<^verbatim>\<open>parent = null\<close> and is added to the same page again.
\<close>

definition reattach_ops :: "op list" where
  "reattach_ops =
     [NewNotebook ''N'', CreatePage 0 ''P'', NewTextCell ''a'', NewTextCell ''b'',
      AddCell 1 2, AddCell 1 3, SetParent 2 None, AddCell 1 2]"

section \<open>Notions used to state the properties\<close>

text \<open>
  The operations of each exporter, with \<^verbatim>\<open>export\<close> itself first. The two
  container operations are closed with the dispatch at the given fuel.
\<close>

definition html_operations :: "nat \<Rightarrow> (ref \<Rightarrow> html_state \<Rightarrow> error + html_state) list" where
  "html_operations fuel =
     [html_export fuel, html_exportNotebook (html_export fuel),
      html_exportPage (html_export fuel), html_exportTextCell, html_exportSourceCodeCell,
      html_exportImageCell]"

definition xml_operations :: "nat \<Rightarrow> (ref \<Rightarrow> xml_state \<Rightarrow> error + xml_state) list" where
  "xml_operations fuel =
     [xml_export fuel, xml_exportNotebook (xml_export fuel),
      xml_exportPage (xml_export fuel), xml_exportTextCell, xml_exportSourceCodeCell,
      xml_exportImageCell]"

text \<open>
  A state whose buffer has the text \<open>a\<close> put in front, to say what an operation
  appends; and an \<^verbatim>\<open>XmlExporter\<close> whose buffer is empty (a new one holds the
  preamble).
\<close>

definition html_prefixed :: "string \<Rightarrow> html_state \<Rightarrow> html_state" where
  "html_prefixed a s = (fst s, \<lparr>priv_html = a @ priv_html (snd s)\<rparr>)"

definition xml_empty :: XmlExporter where
  "xml_empty = \<lparr>priv_xml = []\<rparr>"

definition xml_prefixed :: "string \<Rightarrow> xml_state \<Rightarrow> xml_state" where
  "xml_prefixed a s = (fst s, \<lparr>priv_xml = a @ priv_xml (snd s)\<rparr>)"

text \<open>
  The specification's description of the output, section 4.4: the classes that are
  cells, and the single line of a cell in each format. (These follow the specification's
  words; the code is \<open>html_exportImageCell\<close> and its siblings above.)
\<close>

fun is_cell :: "kind \<Rightarrow> bool" where
  "is_cell (ImageCell _) = True"
| "is_cell (SourceCodeCell _) = True"
| "is_cell (TextCell _) = True"
| "is_cell _ = False"

fun html_cell_line :: "kind \<Rightarrow> string" where
  \<open>html_cell_line (ImageCell imageUrl) = ''<img src="'' @ imageUrl @ ''">''\<close>
| "html_cell_line (SourceCodeCell sourceCode) = ''<code>'' @ sourceCode @ ''</code>''"
| "html_cell_line (TextCell text) = ''<p>'' @ text @ ''</p>''"
| "html_cell_line _ = []"

fun xml_cell_line :: "kind \<Rightarrow> string" where
  \<open>xml_cell_line (ImageCell imageUrl) = ''<image url="'' @ imageUrl @ ''" />''\<close>
| "xml_cell_line (SourceCodeCell sourceCode) = ''<code>'' @ sourceCode @ ''</code>''"
| "xml_cell_line (TextCell text) = ''<text>'' @ text @ ''</text>''"
| "xml_cell_line _ = []"

section \<open>Lemmas\<close>

subsection \<open>Sequencing, references and arrays\<close>

lemma bindR_Inl [simp]: "bindR (Inl e) f = Inl e"
  by (simp add: bindR_def)

lemma bindR_Inr [simp]: "bindR (Inr x) f = f x"
  by (simp add: bindR_def)

lemma bindR_eq_Inr: "bindR m f = Inr y \<longleftrightarrow> (\<exists>x. m = Inr x \<and> f x = Inr y)"
  by (cases m) simp_all

lemma deref_valid [simp]: "r < length h \<Longrightarrow> deref h r = Inr (h ! r)"
  by (simp add: deref_def)

lemma deref_invalid [simp]: "\<not> r < length h \<Longrightarrow> deref h r = Inl InvalidRef"
  by (simp add: deref_def)

lemma indexOf_lower: "x \<in> set xs \<Longrightarrow> int i \<le> indexOf xs x i"
proof (induction xs arbitrary: i)
  case Nil
  then show ?case by simp
next
  case (Cons a xs)
  show ?case
  proof (cases "a = x")
    case True
    then show ?thesis by simp
  next
    case False
    then have "x \<in> set xs"
      using Cons.prems by simp
    then have "int (Suc i) \<le> indexOf xs x (Suc i)"
      by (rule Cons.IH)
    then show ?thesis using False by simp
  qed
qed

lemma indexOf_absent: "x \<notin> set xs \<Longrightarrow> indexOf xs x i = - 1"
  by (induction xs arbitrary: i) auto

lemma indexOf_nonneg_iff: "0 \<le> indexOf xs x i \<longleftrightarrow> x \<in> set xs"
  using indexOf_lower [of x xs i] indexOf_absent [of x xs i] by (cases "x \<in> set xs") auto

lemma indexOf_neg_iff: "indexOf xs x i < 0 \<longleftrightarrow> x \<notin> set xs"
  using indexOf_nonneg_iff [of xs x i] by linarith

lemma heap_ok_iff: "heap_ok h \<longleftrightarrow> (\<forall>n < length h. node_ok (length h) (h ! n))"
  by (simp add: heap_ok_def list_all_length)

lemma node_ok_iff:
  "node_ok n nd \<longleftrightarrow>
     priv_parent nd = None \<and> (\<exists>cs. priv_children nd = Some cs \<and> distinct cs \<and> (\<forall>c \<in> set cs. c < n))"
  by (auto simp: node_ok_def list_all_iff split: option.splits)

lemma heap_okD:
  assumes "heap_ok h" "n < length h"
  shows "priv_parent (h ! n) = None"
    and "\<exists>cs. priv_children (h ! n) = Some cs \<and> distinct cs \<and> (\<forall>c \<in> set cs. c < length h)"
  using assms by (auto simp: heap_ok_iff node_ok_iff)

lemma addChild_eq:
  assumes "p < length h" "priv_children (h ! p) = Some cs"
  shows "addChild h p n =
           Inr (if n \<in> set cs then h else h[p := (h ! p)\<lparr>priv_children := Some (cs @ [n])\<rparr>])"
  using assms
  by (simp add: addChild_def getIndexOfChild_def get_children_def update_children_def push_def
      indexOf_nonneg_iff)

lemma removeChild_eq:
  assumes "p < length h" "priv_children (h ! p) = Some cs"
  shows "removeChild h p n =
           Inr (if n \<in> set cs
                then h[p := (h ! p)\<lparr>priv_children := Some (splice cs (nat (indexOf cs n 0)) 1)\<rparr>]
                else h)"
  using assms
  by (simp add: removeChild_def getIndexOfChild_def get_children_def update_children_def
      indexOf_neg_iff)

lemma set_parent_unset:
  assumes "n < length h" "priv_parent (h ! n) = None"
  shows "set_parent h n v = (case v of None \<Rightarrow> Inr h | Some p \<Rightarrow> addChild h p n)"
  using assms by (simp add: set_parent_def get_parent_def)

lemma heap_ok_add:
  assumes ok: "heap_ok h" and p: "p < length h" and n: "n < length h"
    and cs: "priv_children (h ! p) = Some cs"
  shows "heap_ok (if n \<in> set cs then h else h[p := (h ! p)\<lparr>priv_children := Some (cs @ [n])\<rparr>])"
proof (cases "n \<in> set cs")
  case True
  then show ?thesis using ok by simp
next
  case False
  have "node_ok (length h) ((h ! p)\<lparr>priv_children := Some (cs @ [n])\<rparr>)"
    using heap_okD [OF ok p] cs n False by (auto simp: node_ok_iff)
  then show ?thesis
    using ok False p by (auto simp: heap_ok_iff nth_list_update)
qed

lemma addChild_ok:
  assumes "heap_ok h" "p < length h" "n < length h"
  shows "\<exists>h'. addChild h p n = Inr h' \<and> heap_ok h' \<and> length h' = length h
            \<and> (\<forall>m. kind (h' ! m) = kind (h ! m))"
proof -
  obtain cs where cs: "priv_children (h ! p) = Some cs"
    using heap_okD(2) [OF assms(1,2)] by blast
  show ?thesis
    using heap_ok_add [OF assms cs] assms(2)
    by (auto simp: addChild_eq [OF assms(2) cs] nth_list_update)
qed

lemma addChild_invalid: "\<not> p < length h \<Longrightarrow> addChild h p n = Inl InvalidRef"
  by (simp add: addChild_def getIndexOfChild_def get_children_def)

lemma set_parent_ok:
  assumes "heap_ok h" "n < length h" "set_parent h n v = Inr h'"
  shows "heap_ok h' \<and> length h' = length h \<and> (\<forall>m. kind (h' ! m) = kind (h ! m))"
proof (cases v)
  case None
  then show ?thesis
    using assms set_parent_unset [OF assms(2) heap_okD(1) [OF assms(1,2)], of v] by simp
next
  case (Some p)
  then have eq: "addChild h p n = Inr h'"
    using assms set_parent_unset [OF assms(2) heap_okD(1) [OF assms(1,2)], of v] by simp
  then have "p < length h"
    using addChild_invalid [of p h n] by (cases "p < length h") simp_all
  then show ?thesis
    using addChild_ok [OF assms(1) _ assms(2), of p] eq by auto
qed

lemma set_parent_invalid: "\<not> n < length h \<Longrightarrow> set_parent h n v = Inl InvalidRef"
  by (simp add: set_parent_def get_parent_def)

subsection \<open>Construction and the state between operations\<close>

lemma new_node_None:
  "new_node h k None =
     Inr (length h, h @ [\<lparr>kind = k, priv_parent = None, priv_children = Some []\<rparr>])"
  by (simp add: new_node_def Let_def set_parent_def get_parent_def)

lemma new_node_Some:
  assumes ok: "heap_ok h" and p: "p < length h" and cs: "priv_children (h ! p) = Some cs"
  shows "new_node h k (Some p) =
     Inr (length h,
          h[p := (h ! p)\<lparr>priv_children := Some (cs @ [length h])\<rparr>]
            @ [\<lparr>kind = k, priv_parent = None, priv_children = Some []\<rparr>])"
proof -
  let ?h0 = "h @ [\<lparr>kind = k, priv_parent = None, priv_children = None\<rparr>]"
  have fresh: "length h \<notin> set cs"
    using heap_okD(2) [OF ok p] cs by auto
  have "set_parent ?h0 (length h) (Some p) = addChild ?h0 p (length h)"
    by (simp add: set_parent_def get_parent_def)
  also have "\<dots> = Inr (?h0[p := (?h0 ! p)\<lparr>priv_children := Some (cs @ [length h])\<rparr>])"
    using addChild_eq [of p ?h0 cs "length h"] p cs fresh by (simp add: nth_append)
  finally show ?thesis
    using p by (simp add: new_node_def Let_def nth_append list_update_append)
qed

lemma new_node_invalid:
  assumes "\<not> p < length h"
  shows "\<exists>e. new_node h k (Some p) = Inl e"
proof -
  let ?h0 = "h @ [\<lparr>kind = k, priv_parent = None, priv_children = None\<rparr>]"
  have sp: "set_parent ?h0 (length h) (Some p) = addChild ?h0 p (length h)"
    by (simp add: set_parent_def get_parent_def)
  have "\<exists>e. addChild ?h0 p (length h) = Inl e"
  proof (cases "p = length h")
    case True
    then show ?thesis
      by (simp add: addChild_def getIndexOfChild_def get_children_def)
  next
    case False
    then have "\<not> p < length ?h0"
      using assms by simp
    then show ?thesis
      using addChild_invalid by blast
  qed
  then show ?thesis
    using sp by (auto simp: new_node_def Let_def)
qed

lemma node_ok_mono: "node_ok n nd \<Longrightarrow> n \<le> m \<Longrightarrow> node_ok m nd"
  by (fastforce simp: node_ok_iff)

lemma heap_ok_alloc:
  assumes "heap_ok h"
  shows "heap_ok (h @ [\<lparr>kind = k, priv_parent = None, priv_children = Some []\<rparr>])"
proof -
  have "node_ok (Suc (length h)) (h ! n)" if "n < length h" for n
    using assms that node_ok_mono [of "length h" "h ! n" "Suc (length h)"]
    by (simp add: heap_ok_iff)
  then show ?thesis
    by (auto simp: heap_ok_iff nth_append node_ok_iff)
qed

lemma heap_ok_alloc_child:
  assumes ok: "heap_ok h" and p: "p < length h" and cs: "priv_children (h ! p) = Some cs"
  shows "heap_ok (h[p := (h ! p)\<lparr>priv_children := Some (cs @ [length h])\<rparr>]
            @ [\<lparr>kind = k, priv_parent = None, priv_children = Some []\<rparr>])"
proof -
  let ?h1 = "h[p := (h ! p)\<lparr>priv_children := Some (cs @ [length h])\<rparr>]"
  have old: "node_ok (Suc (length h)) (h ! n)" if "n < length h" for n
    using ok that node_ok_mono [of "length h" "h ! n" "Suc (length h)"]
    by (simp add: heap_ok_iff)
  have fresh: "length h \<notin> set cs"
    using heap_okD(2) [OF ok p] cs by auto
  have "node_ok (Suc (length h)) ((h ! p)\<lparr>priv_children := Some (cs @ [length h])\<rparr>)"
    using old [OF p] cs fresh by (auto simp: node_ok_iff)
  then have "node_ok (Suc (length h)) (?h1 ! n)" if "n < length h" for n
    using old that p by (auto simp: nth_list_update)
  then show ?thesis
    by (auto simp: heap_ok_iff nth_append node_ok_iff)
qed

lemma new_node_ok:
  assumes ok: "heap_ok h" and new: "new_node h k parent = Inr (r, h')"
  shows "heap_ok h' \<and> r = length h \<and> length h' = Suc (length h) \<and> kind (h' ! r) = k
           \<and> (\<forall>m < length h. kind (h' ! m) = kind (h ! m))"
proof (cases parent)
  case None
  then show ?thesis
    using new heap_ok_alloc [OF ok, of k] by (auto simp: new_node_None nth_append)
next
  case (Some p)
  then have p: "p < length h"
    using new new_node_invalid [of p h k] by (cases "p < length h") auto
  obtain cs where cs: "priv_children (h ! p) = Some cs"
    using heap_okD(2) [OF ok p] by blast
  show ?thesis
    using new Some heap_ok_alloc_child [OF ok p cs, of k] p
    by (auto simp: new_node_Some [OF ok p cs] nth_append nth_list_update)
qed

lemma createPage_eq:
  assumes "n < length h" "kind (h ! n) = Notebook nt"
  shows "createPage h n t = new_node h (Page t) (Some n)"
  using assms by (simp add: createPage_def new_Page_def)

lemma createPage_Inr:
  assumes "createPage h n t = Inr r"
  shows "n < length h \<and> (\<exists>nt. kind (h ! n) = Notebook nt) \<and> new_node h (Page t) (Some n) = Inr r"
proof -
  have n: "n < length h"
    using assms by (cases "n < length h") (simp_all add: createPage_def)
  then show ?thesis
    using assms by (cases "kind (h ! n)") (simp_all add: createPage_def new_Page_def)
qed

lemma addCell_eq:
  assumes "p < length h" "kind (h ! p) = Page pt"
  shows "addCell h p c = set_parent h c (Some p)"
  using assms by (simp add: addCell_def)

lemma addCell_Inr:
  assumes "addCell h p c = Inr h'"
  shows "p < length h \<and> (\<exists>pt. kind (h ! p) = Page pt) \<and> set_parent h c (Some p) = Inr h'"
proof -
  have p: "p < length h"
    using assms by (cases "p < length h") (simp_all add: addCell_def)
  then show ?thesis
    using assms by (cases "kind (h ! p)") (simp_all add: addCell_def)
qed

lemma set_parent_Inr_valid: "set_parent h n v = Inr h' \<Longrightarrow> n < length h"
  using set_parent_invalid [of n h v] by (cases "n < length h") simp_all

lemma step_ok:
  assumes "heap_ok h" "step h x = Inr h'"
  shows "heap_ok h'"
proof (cases x)
  case (NewNotebook t)
  then show ?thesis
    using assms new_node_ok [of h "Notebook t" None]
    by (auto simp: new_Notebook_def bindR_eq_Inr)
next
  case (NewPage parent t)
  then show ?thesis
    using assms new_node_ok [of h "Page t" parent]
    by (auto simp: new_Page_def bindR_eq_Inr)
next
  case (NewImageCell u)
  then show ?thesis
    using assms new_node_ok [of h "ImageCell u" None]
    by (auto simp: new_ImageCell_def bindR_eq_Inr)
next
  case (NewSourceCodeCell c)
  then show ?thesis
    using assms new_node_ok [of h "SourceCodeCell c" None]
    by (auto simp: new_SourceCodeCell_def bindR_eq_Inr)
next
  case (NewTextCell t)
  then show ?thesis
    using assms new_node_ok [of h "TextCell t" None]
    by (auto simp: new_TextCell_def bindR_eq_Inr)
next
  case (CreatePage n t)
  then show ?thesis
    using assms new_node_ok [of h "Page t" "Some n"]
    by (auto simp: bindR_eq_Inr dest!: createPage_Inr)
next
  case (AddCell p c)
  then have "set_parent h c (Some p) = Inr h'"
    using assms addCell_Inr by simp
  then show ?thesis
    using set_parent_ok [OF assms(1) set_parent_Inr_valid] by blast
next
  case (SetParent n v)
  then have "set_parent h n v = Inr h'"
    using assms by simp
  then show ?thesis
    using set_parent_ok [OF assms(1) set_parent_Inr_valid] by blast
qed

lemma run_ok: "heap_ok h \<Longrightarrow> run h xs = Inr h' \<Longrightarrow> heap_ok h'"
  by (induction xs arbitrary: h) (auto simp: bindR_eq_Inr dest: step_ok)

lemma heap_ok_Nil: "heap_ok []"
  by (simp add: heap_ok_def)

lemma reachable_ok: "run [] xs = Inr h \<Longrightarrow> heap_ok h"
  using run_ok [OF heap_ok_Nil] .

lemmas tree_defs =
  new_Notebook_def new_Page_def new_ImageCell_def new_SourceCodeCell_def new_TextCell_def
  createPage_def addCell_def new_node_def set_parent_def get_parent_def addChild_def
  removeChild_def getIndexOfChild_def get_children_def update_children_def push_def splice_def
  pages_def cells_def Let_def

lemma run_tiny: "run [] tiny_ops = Inr tiny_heap"
  by (simp add: tiny_ops_def tiny_heap_def tree_defs)

subsection \<open>The exporters leave the store alone\<close>

lemma fold_bindR_Inl [simp]: "fold (\<lambda>c acc. bindR acc (export c)) cs (Inl e) = Inl e"
  by (induction cs) simp_all

lemma html_exportNotebook_eq:
  assumes "n < length (fst s)" "kind (fst s ! n) = Notebook t"
    "priv_children (fst s ! n) = Some ps"
  shows \<open>html_exportNotebook export n s =
     bindR (fold (\<lambda>c acc. bindR acc (export c)) ps
              (Inr (fst s, appendHtmlLine (appendHtmlLine (snd s) ''<main class="notebook">'')
                             (''<h1>'' @ t @ ''</h1>''))))
       (\<lambda>s3. Inr (fst s3, appendHtmlLine (snd s3) ''</main>''))\<close>
  using assms by (simp add: html_exportNotebook_def pages_def get_children_def Let_def)

lemma html_exportPage_eq:
  assumes "n < length (fst s)" "kind (fst s ! n) = Page t"
    "priv_children (fst s ! n) = Some cs"
  shows \<open>html_exportPage export n s =
     bindR (fold (\<lambda>c acc. bindR acc (export c)) cs
              (Inr (fst s, appendHtmlLine (appendHtmlLine (snd s) ''<section class="page">'')
                             (''<h2>'' @ t @ ''</h2>''))))
       (\<lambda>s3. Inr (fst s3, appendHtmlLine (snd s3) ''</section>''))\<close>
  using assms by (simp add: html_exportPage_def cells_def get_children_def Let_def)

lemma html_exportNotebook_Inr:
  assumes "html_exportNotebook export n s = Inr s'"
  shows "n < length (fst s) \<and> (\<exists>t ps. kind (fst s ! n) = Notebook t
            \<and> priv_children (fst s ! n) = Some ps)"
proof -
  have n: "n < length (fst s)"
    using assms by (cases "n < length (fst s)") (simp_all add: html_exportNotebook_def)
  moreover obtain t where t: "kind (fst s ! n) = Notebook t"
    using assms n by (cases "kind (fst s ! n)") (simp_all add: html_exportNotebook_def)
  moreover have "\<exists>ps. priv_children (fst s ! n) = Some ps"
    using assms n t
    by (cases "priv_children (fst s ! n)")
      (simp_all add: html_exportNotebook_def pages_def get_children_def Let_def)
  ultimately show ?thesis by blast
qed

lemma html_exportPage_Inr:
  assumes "html_exportPage export n s = Inr s'"
  shows "n < length (fst s) \<and> (\<exists>t cs. kind (fst s ! n) = Page t
            \<and> priv_children (fst s ! n) = Some cs)"
proof -
  have n: "n < length (fst s)"
    using assms by (cases "n < length (fst s)") (simp_all add: html_exportPage_def)
  moreover obtain t where t: "kind (fst s ! n) = Page t"
    using assms n by (cases "kind (fst s ! n)") (simp_all add: html_exportPage_def)
  moreover have "\<exists>cs. priv_children (fst s ! n) = Some cs"
    using assms n t
    by (cases "priv_children (fst s ! n)")
      (simp_all add: html_exportPage_def cells_def get_children_def Let_def)
  ultimately show ?thesis by blast
qed

lemma fold_export_frame:
  assumes "\<And>c s s'. export c s = Inr s' \<Longrightarrow> fst s' = fst s"
    and "fold (\<lambda>c acc. bindR acc (export c)) cs (Inr s) = Inr s'"
  shows "fst s' = fst s"
  using assms(2)
proof (induction cs arbitrary: s)
  case Nil
  then show ?case by simp
next
  case (Cons c cs)
  show ?case
  proof (cases "export c s")
    case (Inl e)
    then show ?thesis using Cons.prems by simp
  next
    case (Inr s1)
    then have "fst s' = fst s1"
      using Cons.prems Cons.IH [of s1] by simp
    then show ?thesis
      using assms(1) [OF Inr] by simp
  qed
qed

lemma container_frame:
  assumes ex: "\<And>c s s'. export c s = Inr s' \<Longrightarrow> fst s' = fst s"
    and run: "bindR (fold (\<lambda>c acc. bindR acc (export c)) cs (Inr s2))
                (\<lambda>s3. Inr (fst s3, g s3)) = Inr s'"
  shows "fst s' = fst s2"
proof -
  obtain s3 where f: "fold (\<lambda>c acc. bindR acc (export c)) cs (Inr s2) = Inr s3"
    and s': "s' = (fst s3, g s3)"
    using run by (auto simp: bindR_eq_Inr)
  have "fst s3 = fst s2"
    using ex f by (rule fold_export_frame)
  then show ?thesis
    using s' by simp
qed

lemma html_exportNotebook_frame:
  assumes ex: "\<And>c s s'. export c s = Inr s' \<Longrightarrow> fst s' = fst s"
    and run: "html_exportNotebook export n s = Inr s'"
  shows "fst s' = fst s"
proof -
  obtain t ps where n: "n < length (fst s)" and k: "kind (fst s ! n) = Notebook t"
    and c: "priv_children (fst s ! n) = Some ps"
    using html_exportNotebook_Inr [OF run] by blast
  show ?thesis
    using container_frame [of export, OF ex run [unfolded html_exportNotebook_eq [OF n k c]]]
    by simp
qed

lemma html_exportPage_frame:
  assumes ex: "\<And>c s s'. export c s = Inr s' \<Longrightarrow> fst s' = fst s"
    and run: "html_exportPage export n s = Inr s'"
  shows "fst s' = fst s"
proof -
  obtain t cs where n: "n < length (fst s)" and k: "kind (fst s ! n) = Page t"
    and c: "priv_children (fst s ! n) = Some cs"
    using html_exportPage_Inr [OF run] by blast
  show ?thesis
    using container_frame [of export, OF ex run [unfolded html_exportPage_eq [OF n k c]]]
    by simp
qed

lemma html_exportTextCell_frame: "html_exportTextCell c s = Inr s' \<Longrightarrow> fst s' = fst s"
  by (cases "c < length (fst s)"; cases "kind (fst s ! c)")
    (auto simp: html_exportTextCell_def)

lemma html_exportSourceCodeCell_frame:
  "html_exportSourceCodeCell c s = Inr s' \<Longrightarrow> fst s' = fst s"
  by (cases "c < length (fst s)"; cases "kind (fst s ! c)")
    (auto simp: html_exportSourceCodeCell_def)

lemma html_exportImageCell_frame: "html_exportImageCell c s = Inr s' \<Longrightarrow> fst s' = fst s"
  by (cases "c < length (fst s)"; cases "kind (fst s ! c)")
    (auto simp: html_exportImageCell_def)

lemma html_export_frame: "html_export fuel n s = Inr s' \<Longrightarrow> fst s' = fst s"
proof (induction fuel arbitrary: n s s')
  case 0
  then show ?case by simp
next
  case (Suc fuel)
  have n: "n < length (fst s)"
    using Suc.prems by (cases "n < length (fst s)") simp_all
  show ?case
  proof (cases "kind (fst s ! n)")
    case (Notebook t)
    then have "html_exportNotebook (html_export fuel) n s = Inr s'"
      using Suc.prems n by simp
    then show ?thesis
      using Suc.IH by (rule html_exportNotebook_frame [rotated])
  next
    case (Page t)
    then have "html_exportPage (html_export fuel) n s = Inr s'"
      using Suc.prems n by simp
    then show ?thesis
      using Suc.IH by (rule html_exportPage_frame [rotated])
  next
    case (ImageCell u)
    then show ?thesis
      using Suc.prems n html_exportImageCell_frame [of n s s'] by simp
  next
    case (SourceCodeCell c)
    then show ?thesis
      using Suc.prems n html_exportSourceCodeCell_frame [of n s s'] by simp
  next
    case (TextCell t)
    then show ?thesis
      using Suc.prems n html_exportTextCell_frame [of n s s'] by simp
  qed
qed

subsection \<open>The exporters only append\<close>

lemma html_prefixed_Nil [simp]: "html_prefixed [] s = s"
  by (cases s) (simp add: html_prefixed_def)

lemma html_prefixed_prefixed [simp]:
  "html_prefixed a (html_prefixed b s) = html_prefixed (a @ b) s"
  by (simp add: html_prefixed_def)

lemma html_fold_append:
  assumes ex: "\<And>c h e. export c (h, e) =
      bindR (export c (h, new_HtmlExporter)) (\<lambda>s'. Inr (html_prefixed (priv_html e) s'))"
  shows "fold (\<lambda>c acc. bindR acc (export c)) cs (Inr (h, e)) =
      bindR (fold (\<lambda>c acc. bindR acc (export c)) cs (Inr (h, new_HtmlExporter)))
        (\<lambda>s'. Inr (html_prefixed (priv_html e) s'))"
proof (induction cs arbitrary: h e)
  case Nil
  show ?case by (simp add: html_prefixed_def new_HtmlExporter_def)
next
  case (Cons c cs)
  show ?case
  proof (cases "export c (h, new_HtmlExporter)")
    case (Inl err)
    then show ?thesis
      using ex [of c h e] by simp
  next
    case (Inr s1)
    obtain h1 e1 where s1: "s1 = (h1, e1)"
      by (cases s1)
    let ?F = "fold (\<lambda>c acc. bindR acc (export c)) cs (Inr (h1, new_HtmlExporter))"
    have l: "fold (\<lambda>c acc. bindR acc (export c)) (c # cs) (Inr (h, e)) =
        bindR ?F (\<lambda>s'. Inr (html_prefixed (priv_html e @ priv_html e1) s'))"
      using ex [of c h e] Inr s1
        Cons.IH [of h1 "\<lparr>priv_html = priv_html e @ priv_html e1\<rparr>"]
      by (simp add: html_prefixed_def)
    have r: "fold (\<lambda>c acc. bindR acc (export c)) (c # cs) (Inr (h, new_HtmlExporter)) =
        bindR ?F (\<lambda>s'. Inr (html_prefixed (priv_html e1) s'))"
      using Inr s1 Cons.IH [of h1 e1] by simp
    show ?thesis
      unfolding l r by (cases ?F) simp_all
  qed
qed

lemma html_container_append:
  assumes ex: "\<And>c h e. export c (h, e) =
      bindR (export c (h, new_HtmlExporter)) (\<lambda>s'. Inr (html_prefixed (priv_html e) s'))"
  shows "bindR (fold (\<lambda>c acc. bindR acc (export c)) cs
                 (Inr (h, appendHtmlLine (appendHtmlLine e a) b)))
           (\<lambda>s3. Inr (fst s3, appendHtmlLine (snd s3) c)) =
         bindR (bindR (fold (\<lambda>c acc. bindR acc (export c)) cs
                 (Inr (h, appendHtmlLine (appendHtmlLine new_HtmlExporter a) b)))
           (\<lambda>s3. Inr (fst s3, appendHtmlLine (snd s3) c)))
           (\<lambda>s'. Inr (html_prefixed (priv_html e) s'))"
proof -
  let ?F = "fold (\<lambda>c acc. bindR acc (export c)) cs (Inr (h, new_HtmlExporter))"
  show ?thesis
    unfolding html_fold_append [of export cs h "appendHtmlLine (appendHtmlLine e a) b", OF ex]
      html_fold_append [of export cs h "appendHtmlLine (appendHtmlLine new_HtmlExporter a) b",
        OF ex]
    by (cases ?F) (simp_all add: html_prefixed_def appendHtmlLine_def new_HtmlExporter_def)
qed

lemma html_exportNotebook_append:
  assumes ex: "\<And>c h e. export c (h, e) =
      bindR (export c (h, new_HtmlExporter)) (\<lambda>s'. Inr (html_prefixed (priv_html e) s'))"
  shows "html_exportNotebook export n (h, e) =
      bindR (html_exportNotebook export n (h, new_HtmlExporter))
        (\<lambda>s'. Inr (html_prefixed (priv_html e) s'))"
proof (cases "n < length h")
  case False
  then show ?thesis by (simp add: html_exportNotebook_def)
next
  case n: True
  show ?thesis
  proof (cases "\<exists>t. kind (h ! n) = Notebook t")
    case False
    then show ?thesis
      using n by (cases "kind (h ! n)") (simp_all add: html_exportNotebook_def)
  next
    case True
    then obtain t where t: "kind (h ! n) = Notebook t" by blast
    show ?thesis
    proof (cases "priv_children (h ! n)")
      case None
      then show ?thesis
        using n t by (simp add: html_exportNotebook_def pages_def get_children_def Let_def)
    next
      case (Some ps)
      show ?thesis
        using n t Some html_container_append [of export _ h e, OF ex]
        by (simp add: html_exportNotebook_eq)
    qed
  qed
qed

lemma html_exportPage_append:
  assumes ex: "\<And>c h e. export c (h, e) =
      bindR (export c (h, new_HtmlExporter)) (\<lambda>s'. Inr (html_prefixed (priv_html e) s'))"
  shows "html_exportPage export n (h, e) =
      bindR (html_exportPage export n (h, new_HtmlExporter))
        (\<lambda>s'. Inr (html_prefixed (priv_html e) s'))"
proof (cases "n < length h")
  case False
  then show ?thesis by (simp add: html_exportPage_def)
next
  case n: True
  show ?thesis
  proof (cases "\<exists>t. kind (h ! n) = Page t")
    case False
    then show ?thesis
      using n by (cases "kind (h ! n)") (simp_all add: html_exportPage_def)
  next
    case True
    then obtain t where t: "kind (h ! n) = Page t" by blast
    show ?thesis
    proof (cases "priv_children (h ! n)")
      case None
      then show ?thesis
        using n t by (simp add: html_exportPage_def cells_def get_children_def Let_def)
    next
      case (Some ps)
      show ?thesis
        using n t Some html_container_append [of export _ h e, OF ex]
        by (simp add: html_exportPage_eq)
    qed
  qed
qed

lemma html_leaf_append:
  "html_exportTextCell c (h, e) =
     bindR (html_exportTextCell c (h, new_HtmlExporter))
       (\<lambda>s'. Inr (html_prefixed (priv_html e) s'))"
  "html_exportSourceCodeCell c (h, e) =
     bindR (html_exportSourceCodeCell c (h, new_HtmlExporter))
       (\<lambda>s'. Inr (html_prefixed (priv_html e) s'))"
  "html_exportImageCell c (h, e) =
     bindR (html_exportImageCell c (h, new_HtmlExporter))
       (\<lambda>s'. Inr (html_prefixed (priv_html e) s'))"
  by (cases "c < length h"; cases "kind (h ! c)";
      simp add: html_exportTextCell_def html_exportSourceCodeCell_def html_exportImageCell_def
        html_prefixed_def appendHtmlLine_def new_HtmlExporter_def)+

lemma html_export_append:
  "html_export fuel n (h, e) =
     bindR (html_export fuel n (h, new_HtmlExporter))
       (\<lambda>s'. Inr (html_prefixed (priv_html e) s'))"
proof (induction fuel arbitrary: n h e)
  case 0
  show ?case by simp
next
  case (Suc fuel)
  show ?case
  proof (cases "n < length h")
    case False
    then show ?thesis by simp
  next
    case n: True
    show ?thesis
    proof (cases "kind (h ! n)")
      case (Notebook t)
      then show ?thesis
        using n html_exportNotebook_append [of "html_export fuel" n h e, OF Suc.IH] by simp
    next
      case (Page t)
      then show ?thesis
        using n html_exportPage_append [of "html_export fuel" n h e, OF Suc.IH] by simp
    next
      case (ImageCell u)
      then show ?thesis
        using n html_leaf_append(3) [of n h e] by simp
    next
      case (SourceCodeCell c)
      then show ?thesis
        using n html_leaf_append(2) [of n h e] by simp
    next
      case (TextCell t)
      then show ?thesis
        using n html_leaf_append(1) [of n h e] by simp
    qed
  qed
qed

subsection \<open>The exporters return; pages and cells; the sample notebook\<close>

lemma fold_export_total:
  assumes "\<And>c e. c \<in> set cs \<Longrightarrow> \<exists>e'. export c (h, e) = Inr (h, e')"
  shows "\<exists>e'. fold (\<lambda>c acc. bindR acc (export c)) cs (Inr (h, e)) = Inr (h, e')"
  using assms
proof (induction cs arbitrary: e)
  case Nil
  show ?case by simp
next
  case (Cons c cs)
  obtain e1 where "export c (h, e) = Inr (h, e1)"
    using Cons.prems [of c e] by auto
  then show ?case
    using Cons.IH [of e1] Cons.prems by simp
qed

lemma acyclic_byD:
  assumes "acyclic_by rank h" "n < length h" "priv_children (h ! n) = Some cs" "c \<in> set cs"
  shows "rank c < rank n"
proof -
  have "\<forall>m \<in> set [0 ..< length h].
      case priv_children (h ! m) of None \<Rightarrow> True | Some cs \<Rightarrow> list_all (\<lambda>c. rank c < rank m) cs"
    using assms(1) by (simp add: acyclic_by_def list_all_iff)
  then have "case priv_children (h ! n) of None \<Rightarrow> True
      | Some cs \<Rightarrow> list_all (\<lambda>c. rank c < rank n) cs"
    using assms(2) by simp
  then show ?thesis
    using assms(3,4) by (simp add: list_all_iff)
qed

lemma html_export_cell:
  assumes "c < length h" "is_cell (kind (h ! c))"
  shows "html_export (Suc f) c (h, e) = Inr (h, appendHtmlLine e (html_cell_line (kind (h ! c))))"
  using assms
  by (cases "kind (h ! c)")
    (simp_all add: html_exportTextCell_def html_exportSourceCodeCell_def
      html_exportImageCell_def)

lemma html_export_total:
  assumes ok: "heap_ok h" and ac: "acyclic_by rank h"
  shows "n < length h \<Longrightarrow> rank n < fuel \<Longrightarrow> \<exists>e'. html_export fuel n (h, e) = Inr (h, e')"
proof (induction fuel arbitrary: n e)
  case 0
  then show ?case by simp
next
  case (Suc fuel)
  obtain cs where cs: "priv_children (h ! n) = Some cs" and valid: "\<forall>c \<in> set cs. c < length h"
    using heap_okD(2) [OF ok Suc.prems(1)] by blast
  have kids: "\<exists>e'. html_export fuel c (h, e) = Inr (h, e')" if "c \<in> set cs" for c e
  proof -
    have "rank c < rank n"
      using ac Suc.prems(1) cs that by (rule acyclic_byD)
    then have "rank c < fuel"
      using Suc.prems(2) by simp
    then show ?thesis
      using Suc.IH [of c e] valid that by simp
  qed
  show ?case
  proof (cases "kind (h ! n)")
    case (Notebook t)
    obtain e3 where "fold (\<lambda>c acc. bindR acc (html_export fuel c)) cs
        (Inr (h, appendHtmlLine (appendHtmlLine e ''<main class=\"notebook\">'')
                   (''<h1>'' @ t @ ''</h1>''))) = Inr (h, e3)"
      using fold_export_total [of cs "html_export fuel" h, OF kids] by blast
    then show ?thesis
      using Notebook Suc.prems(1) cs
        html_exportNotebook_eq [of n "(h, e)" t cs "html_export fuel"]
      by simp
  next
    case (Page t)
    obtain e3 where "fold (\<lambda>c acc. bindR acc (html_export fuel c)) cs
        (Inr (h, appendHtmlLine (appendHtmlLine e ''<section class=\"page\">'')
                   (''<h2>'' @ t @ ''</h2>''))) = Inr (h, e3)"
      using fold_export_total [of cs "html_export fuel" h, OF kids] by blast
    then show ?thesis
      using Page Suc.prems(1) cs
        html_exportPage_eq [of n "(h, e)" t cs "html_export fuel"]
      by simp
  next
    case (ImageCell u)
    then show ?thesis
      using html_export_cell [of n h fuel e] Suc.prems(1) by simp
  next
    case (SourceCodeCell c)
    then show ?thesis
      using html_export_cell [of n h fuel e] Suc.prems(1) by simp
  next
    case (TextCell t)
    then show ?thesis
      using html_export_cell [of n h fuel e] Suc.prems(1) by simp
  qed
qed

lemma join_lines_Cons: "join_lines (l # ls) = CHR 0x0A # l @ join_lines ls"
  by (simp add: join_lines_def)

lemma html_fold_cells:
  assumes "\<forall>c \<in> set cs. c < length h \<and> is_cell (kind (h ! c))"
  shows "fold (\<lambda>c acc. bindR acc (html_export (Suc f) c)) cs (Inr (h, e)) =
     Inr (h, \<lparr>priv_html = priv_html e @ join_lines (map (\<lambda>c. html_cell_line (kind (h ! c))) cs)\<rparr>)"
  using assms
proof (induction cs arbitrary: e)
  case Nil
  show ?case by (simp add: join_lines_def)
next
  case (Cons c cs)
  have "html_export (Suc f) c (h, e) =
      Inr (h, appendHtmlLine e (html_cell_line (kind (h ! c))))"
    using Cons.prems by (simp add: html_export_cell del: html_export.simps)
  then show ?case
    using Cons.IH [of "appendHtmlLine e (html_cell_line (kind (h ! c)))"] Cons.prems
    by (simp add: join_lines_Cons appendHtmlLine_def del: html_export.simps)
qed

lemma html_export_page:
  assumes "p < length h" "kind (h ! p) = Page t" "priv_children (h ! p) = Some cs"
    "\<forall>c \<in> set cs. c < length h \<and> is_cell (kind (h ! c))"
  shows \<open>html_export (Suc (Suc f)) p (h, new_HtmlExporter) =
     Inr (h, \<lparr>priv_html = join_lines ([''<section class="page">'', ''<h2>'' @ t @ ''</h2>'']
                @ map (\<lambda>c. html_cell_line (kind (h ! c))) cs @ [''</section>''])\<rparr>)\<close>
proof -
  have "html_export (Suc (Suc f)) p (h, new_HtmlExporter) =
      html_exportPage (html_export (Suc f)) p (h, new_HtmlExporter)"
    using assms(1,2) by simp
  then show ?thesis
    using html_exportPage_eq [of p "(h, new_HtmlExporter)" t cs "html_export (Suc f)"]
      assms(1-3) html_fold_cells [OF assms(4), of f]
    by (simp add: join_lines_def appendHtmlLine_def new_HtmlExporter_def
        del: html_export.simps)
qed

lemmas html_defs =
  html_exportNotebook_def html_exportPage_def html_exportTextCell_def
  html_exportSourceCodeCell_def html_exportImageCell_def appendHtmlLine_def
  new_HtmlExporter_def html_def

lemma sample_notebook_eq:
  "sample_notebook u = Inr (0,
     [\<lparr>kind = Notebook ''My Coding Ideas'', priv_parent = None, priv_children = Some [1, 5]\<rparr>,
      \<lparr>kind = Page ''First Page'', priv_parent = None, priv_children = Some [2, 3, 4]\<rparr>,
      \<lparr>kind = ImageCell u, priv_parent = None, priv_children = Some []\<rparr>,
      \<lparr>kind = SourceCodeCell ''alert('Hello, World!');'', priv_parent = None,
         priv_children = Some []\<rparr>,
      \<lparr>kind = TextCell ''Hello, World!'', priv_parent = None, priv_children = Some []\<rparr>,
      \<lparr>kind = Page ''Second Page'', priv_parent = None, priv_children = Some [6]\<rparr>,
      \<lparr>kind = TextCell ''Bye, World!'', priv_parent = None, priv_children = Some []\<rparr>])"
  by (simp add: sample_notebook_def tree_defs)

lemma sample_html_eq:
  \<open>sample_html (Suc (Suc (Suc f))) u =
     Inr (join_lines
       [''<main class="notebook">'',
        ''<h1>My Coding Ideas</h1>'',
        ''<section class="page">'',
        ''<h2>First Page</h2>'',
        ''<img src="'' @ u @ ''">'',
        ''<code>alert('Hello, World!');</code>'',
        ''<p>Hello, World!</p>'',
        ''</section>'',
        ''<section class="page">'',
        ''<h2>Second Page</h2>'',
        ''<p>Bye, World!</p>'',
        ''</section>'',
        ''</main>''])\<close>
  by (simp add: sample_html_def sample_notebook_eq html_defs pages_def cells_def
      get_children_def join_lines_def Let_def)

subsection \<open>The same for the XML exporter\<close>

lemma xml_exportNotebook_eq:
  assumes "n < length (fst s)" "kind (fst s ! n) = Notebook t"
    "priv_children (fst s ! n) = Some ps"
  shows \<open>xml_exportNotebook export n s =
     bindR (fold (\<lambda>c acc. bindR acc (export c)) ps
              (Inr (fst s, appendXmlLine (snd s) (''<notebook title="'' @ t @ ''">''))))
       (\<lambda>s3. Inr (fst s3, appendXmlLine (snd s3) ''</notebook>''))\<close>
  using assms by (simp add: xml_exportNotebook_def pages_def get_children_def Let_def)

lemma xml_exportPage_eq:
  assumes "n < length (fst s)" "kind (fst s ! n) = Page t"
    "priv_children (fst s ! n) = Some cs"
  shows \<open>xml_exportPage export n s =
     bindR (fold (\<lambda>c acc. bindR acc (export c)) cs
              (Inr (fst s, appendXmlLine (snd s) (''<page title="'' @ t @ ''">''))))
       (\<lambda>s3. Inr (fst s3, appendXmlLine (snd s3) ''</page>''))\<close>
  using assms by (simp add: xml_exportPage_def cells_def get_children_def Let_def)

lemma xml_exportNotebook_Inr:
  assumes "xml_exportNotebook export n s = Inr s'"
  shows "n < length (fst s) \<and> (\<exists>t ps. kind (fst s ! n) = Notebook t
            \<and> priv_children (fst s ! n) = Some ps)"
proof -
  have n: "n < length (fst s)"
    using assms by (cases "n < length (fst s)") (simp_all add: xml_exportNotebook_def)
  moreover obtain t where t: "kind (fst s ! n) = Notebook t"
    using assms n by (cases "kind (fst s ! n)") (simp_all add: xml_exportNotebook_def)
  moreover have "\<exists>ps. priv_children (fst s ! n) = Some ps"
    using assms n t
    by (cases "priv_children (fst s ! n)")
      (simp_all add: xml_exportNotebook_def pages_def get_children_def Let_def)
  ultimately show ?thesis by blast
qed

lemma xml_exportPage_Inr:
  assumes "xml_exportPage export n s = Inr s'"
  shows "n < length (fst s) \<and> (\<exists>t cs. kind (fst s ! n) = Page t
            \<and> priv_children (fst s ! n) = Some cs)"
proof -
  have n: "n < length (fst s)"
    using assms by (cases "n < length (fst s)") (simp_all add: xml_exportPage_def)
  moreover obtain t where t: "kind (fst s ! n) = Page t"
    using assms n by (cases "kind (fst s ! n)") (simp_all add: xml_exportPage_def)
  moreover have "\<exists>cs. priv_children (fst s ! n) = Some cs"
    using assms n t
    by (cases "priv_children (fst s ! n)")
      (simp_all add: xml_exportPage_def cells_def get_children_def Let_def)
  ultimately show ?thesis by blast
qed

lemma xml_exportNotebook_frame:
  assumes ex: "\<And>c s s'. export c s = Inr s' \<Longrightarrow> fst s' = fst s"
    and run: "xml_exportNotebook export n s = Inr s'"
  shows "fst s' = fst s"
proof -
  obtain t ps where n: "n < length (fst s)" and k: "kind (fst s ! n) = Notebook t"
    and c: "priv_children (fst s ! n) = Some ps"
    using xml_exportNotebook_Inr [OF run] by blast
  show ?thesis
    using container_frame [of export, OF ex run [unfolded xml_exportNotebook_eq [OF n k c]]]
    by simp
qed

lemma xml_exportPage_frame:
  assumes ex: "\<And>c s s'. export c s = Inr s' \<Longrightarrow> fst s' = fst s"
    and run: "xml_exportPage export n s = Inr s'"
  shows "fst s' = fst s"
proof -
  obtain t cs where n: "n < length (fst s)" and k: "kind (fst s ! n) = Page t"
    and c: "priv_children (fst s ! n) = Some cs"
    using xml_exportPage_Inr [OF run] by blast
  show ?thesis
    using container_frame [of export, OF ex run [unfolded xml_exportPage_eq [OF n k c]]]
    by simp
qed

lemma xml_exportTextCell_frame: "xml_exportTextCell c s = Inr s' \<Longrightarrow> fst s' = fst s"
  by (cases "c < length (fst s)"; cases "kind (fst s ! c)")
    (auto simp: xml_exportTextCell_def)

lemma xml_exportSourceCodeCell_frame:
  "xml_exportSourceCodeCell c s = Inr s' \<Longrightarrow> fst s' = fst s"
  by (cases "c < length (fst s)"; cases "kind (fst s ! c)")
    (auto simp: xml_exportSourceCodeCell_def)

lemma xml_exportImageCell_frame: "xml_exportImageCell c s = Inr s' \<Longrightarrow> fst s' = fst s"
  by (cases "c < length (fst s)"; cases "kind (fst s ! c)")
    (auto simp: xml_exportImageCell_def)

lemma xml_export_frame: "xml_export fuel n s = Inr s' \<Longrightarrow> fst s' = fst s"
proof (induction fuel arbitrary: n s s')
  case 0
  then show ?case by simp
next
  case (Suc fuel)
  have n: "n < length (fst s)"
    using Suc.prems by (cases "n < length (fst s)") simp_all
  show ?case
  proof (cases "kind (fst s ! n)")
    case (Notebook t)
    then have "xml_exportNotebook (xml_export fuel) n s = Inr s'"
      using Suc.prems n by simp
    then show ?thesis
      using Suc.IH by (rule xml_exportNotebook_frame [rotated])
  next
    case (Page t)
    then have "xml_exportPage (xml_export fuel) n s = Inr s'"
      using Suc.prems n by simp
    then show ?thesis
      using Suc.IH by (rule xml_exportPage_frame [rotated])
  next
    case (ImageCell u)
    then show ?thesis
      using Suc.prems n xml_exportImageCell_frame [of n s s'] by simp
  next
    case (SourceCodeCell c)
    then show ?thesis
      using Suc.prems n xml_exportSourceCodeCell_frame [of n s s'] by simp
  next
    case (TextCell t)
    then show ?thesis
      using Suc.prems n xml_exportTextCell_frame [of n s s'] by simp
  qed
qed

lemma xml_prefixed_Nil [simp]: "xml_prefixed [] s = s"
  by (cases s) (simp add: xml_prefixed_def)

lemma xml_prefixed_prefixed [simp]:
  "xml_prefixed a (xml_prefixed b s) = xml_prefixed (a @ b) s"
  by (simp add: xml_prefixed_def)

lemma xml_fold_append:
  assumes ex: "\<And>c h e. export c (h, e) =
      bindR (export c (h, xml_empty)) (\<lambda>s'. Inr (xml_prefixed (priv_xml e) s'))"
  shows "fold (\<lambda>c acc. bindR acc (export c)) cs (Inr (h, e)) =
      bindR (fold (\<lambda>c acc. bindR acc (export c)) cs (Inr (h, xml_empty)))
        (\<lambda>s'. Inr (xml_prefixed (priv_xml e) s'))"
proof (induction cs arbitrary: h e)
  case Nil
  show ?case by (simp add: xml_prefixed_def xml_empty_def)
next
  case (Cons c cs)
  show ?case
  proof (cases "export c (h, xml_empty)")
    case (Inl err)
    then show ?thesis
      using ex [of c h e] by simp
  next
    case (Inr s1)
    obtain h1 e1 where s1: "s1 = (h1, e1)"
      by (cases s1)
    let ?F = "fold (\<lambda>c acc. bindR acc (export c)) cs (Inr (h1, xml_empty))"
    have l: "fold (\<lambda>c acc. bindR acc (export c)) (c # cs) (Inr (h, e)) =
        bindR ?F (\<lambda>s'. Inr (xml_prefixed (priv_xml e @ priv_xml e1) s'))"
      using ex [of c h e] Inr s1
        Cons.IH [of h1 "\<lparr>priv_xml = priv_xml e @ priv_xml e1\<rparr>"]
      by (simp add: xml_prefixed_def)
    have r: "fold (\<lambda>c acc. bindR acc (export c)) (c # cs) (Inr (h, xml_empty)) =
        bindR ?F (\<lambda>s'. Inr (xml_prefixed (priv_xml e1) s'))"
      using Inr s1 Cons.IH [of h1 e1] by simp
    show ?thesis
      unfolding l r by (cases ?F) simp_all
  qed
qed

lemma xml_container_append:
  assumes ex: "\<And>c h e. export c (h, e) =
      bindR (export c (h, xml_empty)) (\<lambda>s'. Inr (xml_prefixed (priv_xml e) s'))"
  shows "bindR (fold (\<lambda>c acc. bindR acc (export c)) cs
                 (Inr (h, appendXmlLine e a)))
           (\<lambda>s3. Inr (fst s3, appendXmlLine (snd s3) c)) =
         bindR (bindR (fold (\<lambda>c acc. bindR acc (export c)) cs
                 (Inr (h, appendXmlLine xml_empty a)))
           (\<lambda>s3. Inr (fst s3, appendXmlLine (snd s3) c)))
           (\<lambda>s'. Inr (xml_prefixed (priv_xml e) s'))"
proof -
  let ?F = "fold (\<lambda>c acc. bindR acc (export c)) cs (Inr (h, xml_empty))"
  show ?thesis
    unfolding xml_fold_append [of export cs h "appendXmlLine e a", OF ex]
      xml_fold_append [of export cs h "appendXmlLine xml_empty a",
        OF ex]
    by (cases ?F) (simp_all add: xml_prefixed_def appendXmlLine_def xml_empty_def)
qed

lemma xml_exportNotebook_append:
  assumes ex: "\<And>c h e. export c (h, e) =
      bindR (export c (h, xml_empty)) (\<lambda>s'. Inr (xml_prefixed (priv_xml e) s'))"
  shows "xml_exportNotebook export n (h, e) =
      bindR (xml_exportNotebook export n (h, xml_empty))
        (\<lambda>s'. Inr (xml_prefixed (priv_xml e) s'))"
proof (cases "n < length h")
  case False
  then show ?thesis by (simp add: xml_exportNotebook_def)
next
  case n: True
  show ?thesis
  proof (cases "\<exists>t. kind (h ! n) = Notebook t")
    case False
    then show ?thesis
      using n by (cases "kind (h ! n)") (simp_all add: xml_exportNotebook_def)
  next
    case True
    then obtain t where t: "kind (h ! n) = Notebook t" by blast
    show ?thesis
    proof (cases "priv_children (h ! n)")
      case None
      then show ?thesis
        using n t by (simp add: xml_exportNotebook_def pages_def get_children_def Let_def)
    next
      case (Some ps)
      show ?thesis
        using n t Some xml_container_append [of export _ h e, OF ex]
        by (simp add: xml_exportNotebook_eq)
    qed
  qed
qed

lemma xml_exportPage_append:
  assumes ex: "\<And>c h e. export c (h, e) =
      bindR (export c (h, xml_empty)) (\<lambda>s'. Inr (xml_prefixed (priv_xml e) s'))"
  shows "xml_exportPage export n (h, e) =
      bindR (xml_exportPage export n (h, xml_empty))
        (\<lambda>s'. Inr (xml_prefixed (priv_xml e) s'))"
proof (cases "n < length h")
  case False
  then show ?thesis by (simp add: xml_exportPage_def)
next
  case n: True
  show ?thesis
  proof (cases "\<exists>t. kind (h ! n) = Page t")
    case False
    then show ?thesis
      using n by (cases "kind (h ! n)") (simp_all add: xml_exportPage_def)
  next
    case True
    then obtain t where t: "kind (h ! n) = Page t" by blast
    show ?thesis
    proof (cases "priv_children (h ! n)")
      case None
      then show ?thesis
        using n t by (simp add: xml_exportPage_def cells_def get_children_def Let_def)
    next
      case (Some ps)
      show ?thesis
        using n t Some xml_container_append [of export _ h e, OF ex]
        by (simp add: xml_exportPage_eq)
    qed
  qed
qed

lemma xml_leaf_append:
  "xml_exportTextCell c (h, e) =
     bindR (xml_exportTextCell c (h, xml_empty))
       (\<lambda>s'. Inr (xml_prefixed (priv_xml e) s'))"
  "xml_exportSourceCodeCell c (h, e) =
     bindR (xml_exportSourceCodeCell c (h, xml_empty))
       (\<lambda>s'. Inr (xml_prefixed (priv_xml e) s'))"
  "xml_exportImageCell c (h, e) =
     bindR (xml_exportImageCell c (h, xml_empty))
       (\<lambda>s'. Inr (xml_prefixed (priv_xml e) s'))"
  by (cases "c < length h"; cases "kind (h ! c)";
      simp add: xml_exportTextCell_def xml_exportSourceCodeCell_def xml_exportImageCell_def
        xml_prefixed_def appendXmlLine_def xml_empty_def)+

lemma xml_export_append:
  "xml_export fuel n (h, e) =
     bindR (xml_export fuel n (h, xml_empty))
       (\<lambda>s'. Inr (xml_prefixed (priv_xml e) s'))"
proof (induction fuel arbitrary: n h e)
  case 0
  show ?case by simp
next
  case (Suc fuel)
  show ?case
  proof (cases "n < length h")
    case False
    then show ?thesis by simp
  next
    case n: True
    show ?thesis
    proof (cases "kind (h ! n)")
      case (Notebook t)
      then show ?thesis
        using n xml_exportNotebook_append [of "xml_export fuel" n h e, OF Suc.IH] by simp
    next
      case (Page t)
      then show ?thesis
        using n xml_exportPage_append [of "xml_export fuel" n h e, OF Suc.IH] by simp
    next
      case (ImageCell u)
      then show ?thesis
        using n xml_leaf_append(3) [of n h e] by simp
    next
      case (SourceCodeCell c)
      then show ?thesis
        using n xml_leaf_append(2) [of n h e] by simp
    next
      case (TextCell t)
      then show ?thesis
        using n xml_leaf_append(1) [of n h e] by simp
    qed
  qed
qed

lemma xml_export_cell:
  assumes "c < length h" "is_cell (kind (h ! c))"
  shows "xml_export (Suc f) c (h, e) = Inr (h, appendXmlLine e (xml_cell_line (kind (h ! c))))"
  using assms
  by (cases "kind (h ! c)")
    (simp_all add: xml_exportTextCell_def xml_exportSourceCodeCell_def
      xml_exportImageCell_def)

lemma xml_export_total:
  assumes ok: "heap_ok h" and ac: "acyclic_by rank h"
  shows "n < length h \<Longrightarrow> rank n < fuel \<Longrightarrow> \<exists>e'. xml_export fuel n (h, e) = Inr (h, e')"
proof (induction fuel arbitrary: n e)
  case 0
  then show ?case by simp
next
  case (Suc fuel)
  obtain cs where cs: "priv_children (h ! n) = Some cs" and valid: "\<forall>c \<in> set cs. c < length h"
    using heap_okD(2) [OF ok Suc.prems(1)] by blast
  have kids: "\<exists>e'. xml_export fuel c (h, e) = Inr (h, e')" if "c \<in> set cs" for c e
  proof -
    have "rank c < rank n"
      using ac Suc.prems(1) cs that by (rule acyclic_byD)
    then have "rank c < fuel"
      using Suc.prems(2) by simp
    then show ?thesis
      using Suc.IH [of c e] valid that by simp
  qed
  show ?case
  proof (cases "kind (h ! n)")
    case (Notebook t)
    obtain e3 where "fold (\<lambda>c acc. bindR acc (xml_export fuel c)) cs
        (Inr (h, appendXmlLine e (''<notebook title=\"'' @ t @ ''\">''))) = Inr (h, e3)"
      using fold_export_total [of cs "xml_export fuel" h, OF kids] by blast
    then show ?thesis
      using Notebook Suc.prems(1) cs
        xml_exportNotebook_eq [of n "(h, e)" t cs "xml_export fuel"]
      by simp
  next
    case (Page t)
    obtain e3 where "fold (\<lambda>c acc. bindR acc (xml_export fuel c)) cs
        (Inr (h, appendXmlLine e (''<page title=\"'' @ t @ ''\">''))) = Inr (h, e3)"
      using fold_export_total [of cs "xml_export fuel" h, OF kids] by blast
    then show ?thesis
      using Page Suc.prems(1) cs
        xml_exportPage_eq [of n "(h, e)" t cs "xml_export fuel"]
      by simp
  next
    case (ImageCell u)
    then show ?thesis
      using xml_export_cell [of n h fuel e] Suc.prems(1) by simp
  next
    case (SourceCodeCell c)
    then show ?thesis
      using xml_export_cell [of n h fuel e] Suc.prems(1) by simp
  next
    case (TextCell t)
    then show ?thesis
      using xml_export_cell [of n h fuel e] Suc.prems(1) by simp
  qed
qed

lemma xml_fold_cells:
  assumes "\<forall>c \<in> set cs. c < length h \<and> is_cell (kind (h ! c))"
  shows "fold (\<lambda>c acc. bindR acc (xml_export (Suc f) c)) cs (Inr (h, e)) =
     Inr (h, \<lparr>priv_xml = priv_xml e @ join_lines (map (\<lambda>c. xml_cell_line (kind (h ! c))) cs)\<rparr>)"
  using assms
proof (induction cs arbitrary: e)
  case Nil
  show ?case by (simp add: join_lines_def)
next
  case (Cons c cs)
  have "xml_export (Suc f) c (h, e) =
      Inr (h, appendXmlLine e (xml_cell_line (kind (h ! c))))"
    using Cons.prems by (simp add: xml_export_cell del: xml_export.simps)
  then show ?case
    using Cons.IH [of "appendXmlLine e (xml_cell_line (kind (h ! c)))"] Cons.prems
    by (simp add: join_lines_Cons appendXmlLine_def del: xml_export.simps)
qed

lemma xml_export_page:
  assumes "p < length h" "kind (h ! p) = Page t" "priv_children (h ! p) = Some cs"
    "\<forall>c \<in> set cs. c < length h \<and> is_cell (kind (h ! c))"
  shows \<open>xml_export (Suc (Suc f)) p (h, new_XmlExporter) =
     Inr (h, \<lparr>priv_xml = xml new_XmlExporter @ join_lines ([''<page title="'' @ t @ ''">'']
                @ map (\<lambda>c. xml_cell_line (kind (h ! c))) cs @ [''</page>''])\<rparr>)\<close>
proof -
  have "xml_export (Suc (Suc f)) p (h, new_XmlExporter) =
      xml_exportPage (xml_export (Suc f)) p (h, new_XmlExporter)"
    using assms(1,2) by simp
  then show ?thesis
    using xml_exportPage_eq [of p "(h, new_XmlExporter)" t cs "xml_export (Suc f)"]
      assms(1-3) xml_fold_cells [OF assms(4), of f]
    by (simp add: join_lines_def appendXmlLine_def new_XmlExporter_def xml_def
        del: xml_export.simps)
qed

lemmas xml_defs =
  xml_exportNotebook_def xml_exportPage_def xml_exportTextCell_def
  xml_exportSourceCodeCell_def xml_exportImageCell_def appendXmlLine_def
  new_XmlExporter_def xml_def

lemma sample_xml_eq:
  \<open>sample_xml (Suc (Suc (Suc f))) u =
     Inr (''<?xml version="1.0" encoding="UTF-8"?>'' @ join_lines
       [''<notebook title="My Coding Ideas">'',
        ''<page title="First Page">'',
        ''<image url="'' @ u @ ''" />'',
        ''<code>alert('Hello, World!');</code>'',
        ''<text>Hello, World!</text>'',
        ''</page>'',
        ''<page title="Second Page">'',
        ''<text>Bye, World!</text>'',
        ''</page>'',
        ''</notebook>''])\<close>
  by (simp add: sample_xml_def sample_notebook_eq xml_defs pages_def cells_def
      get_children_def join_lines_def Let_def)

subsection \<open>All operations of an exporter\<close>

lemma html_operations_frame:
  assumes "op \<in> set (html_operations fuel)" "op n s = Inr s'"
  shows "fst s' = fst s"
proof -
  consider "op = html_export fuel" | "op = html_exportNotebook (html_export fuel)"
    | "op = html_exportPage (html_export fuel)" | "op = html_exportTextCell"
    | "op = html_exportSourceCodeCell" | "op = html_exportImageCell"
    using assms(1) by (auto simp: html_operations_def)
  then show ?thesis
  proof cases
    case 1
    then show ?thesis using assms(2) html_export_frame by simp
  next
    case 2
    then show ?thesis
      using assms(2) html_exportNotebook_frame [of "html_export fuel" n s s'] html_export_frame
      by simp
  next
    case 3
    then show ?thesis
      using assms(2) html_exportPage_frame [of "html_export fuel" n s s'] html_export_frame
      by simp
  next
    case 4
    then show ?thesis using assms(2) html_exportTextCell_frame by simp
  next
    case 5
    then show ?thesis using assms(2) html_exportSourceCodeCell_frame by simp
  next
    case 6
    then show ?thesis using assms(2) html_exportImageCell_frame by simp
  qed
qed

lemma xml_operations_frame:
  assumes "op \<in> set (xml_operations fuel)" "op n s = Inr s'"
  shows "fst s' = fst s"
proof -
  consider "op = xml_export fuel" | "op = xml_exportNotebook (xml_export fuel)"
    | "op = xml_exportPage (xml_export fuel)" | "op = xml_exportTextCell"
    | "op = xml_exportSourceCodeCell" | "op = xml_exportImageCell"
    using assms(1) by (auto simp: xml_operations_def)
  then show ?thesis
  proof cases
    case 1
    then show ?thesis using assms(2) xml_export_frame by simp
  next
    case 2
    then show ?thesis
      using assms(2) xml_exportNotebook_frame [of "xml_export fuel" n s s'] xml_export_frame
      by simp
  next
    case 3
    then show ?thesis
      using assms(2) xml_exportPage_frame [of "xml_export fuel" n s s'] xml_export_frame
      by simp
  next
    case 4
    then show ?thesis using assms(2) xml_exportTextCell_frame by simp
  next
    case 5
    then show ?thesis using assms(2) xml_exportSourceCodeCell_frame by simp
  next
    case 6
    then show ?thesis using assms(2) xml_exportImageCell_frame by simp
  qed
qed

lemma html_operations_append:
  assumes "op \<in> set (html_operations fuel)"
  shows "op n (h, e) =
     bindR (op n (h, new_HtmlExporter)) (\<lambda>s'. Inr (html_prefixed (priv_html e) s'))"
proof -
  consider "op = html_export fuel" | "op = html_exportNotebook (html_export fuel)"
    | "op = html_exportPage (html_export fuel)" | "op = html_exportTextCell"
    | "op = html_exportSourceCodeCell" | "op = html_exportImageCell"
    using assms(1) by (auto simp: html_operations_def)
  then show ?thesis
  proof cases
    case 1
    then show ?thesis using html_export_append [of fuel n h e] by simp
  next
    case 2
    then show ?thesis
      using html_exportNotebook_append [of "html_export fuel" n h e, OF html_export_append]
      by simp
  next
    case 3
    then show ?thesis
      using html_exportPage_append [of "html_export fuel" n h e, OF html_export_append]
      by simp
  next
    case 4
    then show ?thesis using html_leaf_append(1) [of n h e] by simp
  next
    case 5
    then show ?thesis using html_leaf_append(2) [of n h e] by simp
  next
    case 6
    then show ?thesis using html_leaf_append(3) [of n h e] by simp
  qed
qed

lemma xml_operations_append:
  assumes "op \<in> set (xml_operations fuel)"
  shows "op n (h, e) =
     bindR (op n (h, xml_empty)) (\<lambda>s'. Inr (xml_prefixed (priv_xml e) s'))"
proof -
  consider "op = xml_export fuel" | "op = xml_exportNotebook (xml_export fuel)"
    | "op = xml_exportPage (xml_export fuel)" | "op = xml_exportTextCell"
    | "op = xml_exportSourceCodeCell" | "op = xml_exportImageCell"
    using assms(1) by (auto simp: xml_operations_def)
  then show ?thesis
  proof cases
    case 1
    then show ?thesis using xml_export_append [of fuel n h e] by simp
  next
    case 2
    then show ?thesis
      using xml_exportNotebook_append [of "xml_export fuel" n h e, OF xml_export_append]
      by simp
  next
    case 3
    then show ?thesis
      using xml_exportPage_append [of "xml_export fuel" n h e, OF xml_export_append]
      by simp
  next
    case 4
    then show ?thesis using xml_leaf_append(1) [of n h e] by simp
  next
    case 5
    then show ?thesis using xml_leaf_append(2) [of n h e] by simp
  next
    case 6
    then show ?thesis using xml_leaf_append(3) [of n h e] by simp
  qed
qed

lemma tiny_html:
  \<open>html_exportNotebook (html_export (Suc (Suc 0))) 0 (tiny_heap, new_HtmlExporter) =
     Inr (tiny_heap, \<lparr>priv_html = join_lines
       [''<main class="notebook">'', ''<h1>N</h1>'', ''<section class="page">'',
        ''<h2>P</h2>'', ''<p>T</p>'', ''</section>'', ''</main>'']\<rparr>)\<close>
  by (simp add: tiny_heap_def html_defs pages_def cells_def get_children_def join_lines_def
      Let_def)

lemma tiny_xml:
  \<open>xml_exportNotebook (xml_export (Suc (Suc 0))) 0 (tiny_heap, new_XmlExporter) =
     Inr (tiny_heap, \<lparr>priv_xml = xml new_XmlExporter @ join_lines
       [''<notebook title="N">'', ''<page title="P">'', ''<text>T</text>'', ''</page>'',
        ''</notebook>'']\<rparr>)\<close>
  by (simp add: tiny_heap_def xml_defs pages_def cells_def get_children_def join_lines_def
      Let_def)

lemma cells_Some:
  assumes "cells h p = Inr (Some cs)"
  shows "p < length h \<and> priv_children (h ! p) = Some cs"
  using assms by (cases "p < length h") (simp_all add: cells_def get_children_def)

subsection \<open>What createPage and addCell do to the children\<close>

text \<open>
  In every store reached through the public operations, \<^verbatim>\<open>createPage(t)\<close>
  on a notebook returns a new object, a page with title \<open>t\<close> and no cells, and puts
  it at the end of the pages of the notebook; \<^verbatim>\<open>addCell(c)\<close> on a page is the
  assignment to \<^verbatim>\<open>parent\<close> of the cell, and the cell is then among the cells of
  the page. Nothing is said here about the parent getter.
\<close>

lemma createPage_addCell_membership:
  assumes "run [] ops = Inr h"
  shows "(n < length h \<and> kind (h ! n) = Notebook nt \<longrightarrow>
            (\<exists>ps h'. pages h n = Inr (Some ps) \<and>
               createPage h n t = Inr (length h, h') \<and>
               kind (h' ! length h) = Page t \<and>
               cells h' (length h) = Inr (Some []) \<and>
               pages h' n = Inr (Some (ps @ [length h])))) \<and>
         (p < length h \<and> kind (h ! p) = Page pt \<and> c < length h \<longrightarrow>
            (\<exists>cs h'. addCell h p c = set_parent h c (Some p) \<and>
               addCell h p c = Inr h' \<and>
               cells h' p = Inr (Some cs) \<and> c \<in> set cs))"
proof (intro conjI impI)
  have ok: "heap_ok h"
    using assms by (rule reachable_ok)
  {
    assume a: "n < length h \<and> kind (h ! n) = Notebook nt"
    then have n: "n < length h" and k: "kind (h ! n) = Notebook nt"
      by simp_all
    obtain ps where ps: "priv_children (h ! n) = Some ps"
      using heap_okD(2) [OF ok n] by blast
    let ?h' = "h[n := (h ! n)\<lparr>priv_children := Some (ps @ [length h])\<rparr>]
                 @ [\<lparr>kind = Page t, priv_parent = None, priv_children = Some []\<rparr>]"
    have "createPage h n t = Inr (length h, ?h')"
      using createPage_eq [OF n k] new_node_Some [OF ok n ps] by simp
    moreover have "pages h n = Inr (Some ps)"
      using n ps by (simp add: pages_def get_children_def)
    moreover have "kind (?h' ! length h) = Page t"
      by (simp add: nth_append)
    moreover have "cells ?h' (length h) = Inr (Some [])"
      by (simp add: cells_def get_children_def nth_append)
    moreover have "pages ?h' n = Inr (Some (ps @ [length h]))"
      using n by (simp add: pages_def get_children_def nth_append)
    ultimately show "\<exists>ps h'. pages h n = Inr (Some ps) \<and>
               createPage h n t = Inr (length h, h') \<and>
               kind (h' ! length h) = Page t \<and>
               cells h' (length h) = Inr (Some []) \<and>
               pages h' n = Inr (Some (ps @ [length h]))"
      by blast
  }
  {
    assume a: "p < length h \<and> kind (h ! p) = Page pt \<and> c < length h"
    then have p: "p < length h" and k: "kind (h ! p) = Page pt" and c: "c < length h"
      by simp_all
    obtain cs where cs: "priv_children (h ! p) = Some cs"
      using heap_okD(2) [OF ok p] by blast
    let ?h' = "if c \<in> set cs then h else h[p := (h ! p)\<lparr>priv_children := Some (cs @ [c])\<rparr>]"
    have eq: "addCell h p c = set_parent h c (Some p)"
      using p k by (rule addCell_eq)
    have "set_parent h c (Some p) = Inr ?h'"
      using set_parent_unset [OF c heap_okD(1) [OF ok c], of "Some p"] addChild_eq [OF p cs, of c]
      by simp
    moreover have "\<exists>cs'. cells ?h' p = Inr (Some cs') \<and> c \<in> set cs'"
      using p cs by (simp add: cells_def get_children_def)
    ultimately show "\<exists>cs h'. addCell h p c = set_parent h c (Some p) \<and>
               addCell h p c = Inr h' \<and>
               cells h' p = Inr (Some cs) \<and> c \<in> set cs"
      using eq by auto
  }
qed

section \<open>The claims\<close>

text \<open>
  Claim C1. The notebook of the driver program (title "My Coding Ideas"; a page "First
  Page" with an image cell, the source code cell \<^verbatim>\<open>alert('Hello, World!');\<close> and
  the text cell "Hello, World!"; a page "Second Page" with the text cell "Bye, World!"),
  built through the public operations and exported with a new \<^verbatim>\<open>HtmlExporter\<close>,
  gives exactly the thirteen lines below, each one joined with a leading newline; with a
  new \<^verbatim>\<open>XmlExporter\<close> it gives the preamble followed by the ten lines below. The
  attribute values are embedded as they are. This holds for every URL \<open>u\<close> of the
  image and for every depth of recursion from three on.
\<close>

theorem sample_export_exact:
  \<open>sample_html (Suc (Suc (Suc f))) u =
     Inr (join_lines
       [''<main class="notebook">'',
        ''<h1>My Coding Ideas</h1>'',
        ''<section class="page">'',
        ''<h2>First Page</h2>'',
        ''<img src="'' @ u @ ''">'',
        ''<code>alert('Hello, World!');</code>'',
        ''<p>Hello, World!</p>'',
        ''</section>'',
        ''<section class="page">'',
        ''<h2>Second Page</h2>'',
        ''<p>Bye, World!</p>'',
        ''</section>'',
        ''</main>'']) \<and>
   sample_xml (Suc (Suc (Suc f))) u =
     Inr (''<?xml version="1.0" encoding="UTF-8"?>'' @ join_lines
       [''<notebook title="My Coding Ideas">'',
        ''<page title="First Page">'',
        ''<image url="'' @ u @ ''" />'',
        ''<code>alert('Hello, World!');</code>'',
        ''<text>Hello, World!</text>'',
        ''</page>'',
        ''<page title="Second Page">'',
        ''<text>Bye, World!</text>'',
        ''</page>'',
        ''</notebook>''])\<close>
  using sample_html_eq [of f u] sample_xml_eq [of f u] by (rule conjI)

text \<open>
  Claim C2, evaluated on the code. A cell is added to a first page and then to a second
  one: afterwards it is among the cells of both pages, and its parent getter answers
  \<^verbatim>\<open>undefined\<close>. After \<^verbatim>\<open>parent = null\<close> on the cell it is still among the
  cells of both pages. The claim says that it is a child of the second page only, and of
  no page after the assignment of \<^verbatim>\<open>null\<close>.
\<close>

theorem reparent_keeps_old_edge:
  "bindR (run [] shared_cell_ops) (\<lambda>h. Inr (cells h 1, cells h 2, get_parent h 3))
     = Inr (Inr (Some [3]), Inr (Some [3]), Inr None) \<and>
   bindR (run [] (shared_cell_ops @ [SetParent 3 None])) (\<lambda>h. Inr (cells h 1, cells h 2))
     = Inr (Inr (Some [3]), Inr (Some [3]))"
  by (simp add: shared_cell_ops_def tree_defs)

text \<open>
  Claim C3. In every store that a sequence of constructor calls, calls of
  \<^verbatim>\<open>createPage\<close> and \<^verbatim>\<open>addCell\<close> and assignments to \<^verbatim>\<open>parent\<close>
  reaches from the empty store, the parent getter of every node returns
  \<^verbatim>\<open>undefined\<close>: the field \<^verbatim>\<open>_parent\<close> is never written.
\<close>

theorem parent_getter_undefined:
  assumes "run [] ops = Inr h" and "n < length h"
  shows "get_parent h n = Inr None \<and> priv_parent (h ! n) = None"
  using heap_okD(1) [OF reachable_ok [OF assms(1)] assms(2)] assms(2)
  by (simp add: get_parent_def)

theorem parent_getter_undefined_witness:
  "run [] tiny_ops = Inr tiny_heap \<and> 2 < length tiny_heap
     \<and> get_parent tiny_heap 2 = Inr None \<and> priv_parent (tiny_heap ! 2) = None"
proof -
  have l: "2 < length tiny_heap"
    by (simp add: tiny_heap_def)
  show ?thesis
    using parent_getter_undefined [OF run_tiny l] run_tiny l by simp
qed

text \<open>
  Claim C4, evaluated on the code. A page gets the cells 2 and 3 in this order; then
  cell 2 gets \<^verbatim>\<open>parent = null\<close> and is added to the page again. After the
  assignment of \<^verbatim>\<open>null\<close> the cells of the page are still 2, 3, and at the end
  they are 2, 3 as well: the cell keeps its old position. The claim says that the cell
  is at the new end, which is the order 3, 2.
\<close>

theorem reattach_keeps_position:
  "bindR (run [] (take 7 reattach_ops)) (\<lambda>h. cells h 1) = Inr (Some [2, 3]) \<and>
   bindR (run [] reattach_ops) (\<lambda>h. cells h 1) = Inr (Some [2, 3])"
  by (simp add: reattach_ops_def tree_defs)

text \<open>
  Claim C5. In every store reached through the public operations, if the assignment
  \<^verbatim>\<open>n.parent = p\<close> succeeds, then the same assignment made again leaves the whole
  store as it is; the children of \<open>p\<close> hold \<open>n\<close>, and hold no node twice.
\<close>

theorem attach_idempotent:
  assumes "run [] ops = Inr h" and "set_parent h n (Some p) = Inr h1"
  shows "set_parent h1 n (Some p) = Inr h1
           \<and> (\<exists>cs. get_children h1 p = Inr (Some cs) \<and> n \<in> set cs \<and> distinct cs)"
proof -
  have ok: "heap_ok h"
    using assms(1) by (rule reachable_ok)
  have n: "n < length h"
    using assms(2) by (rule set_parent_Inr_valid)
  have add: "addChild h p n = Inr h1"
    using assms(2) set_parent_unset [OF n heap_okD(1) [OF ok n], of "Some p"] by simp
  then have p: "p < length h"
    using addChild_invalid [of p h n] by (cases "p < length h") simp_all
  obtain cs where cs: "priv_children (h ! p) = Some cs"
    using heap_okD(2) [OF ok p] by blast
  have h1: "h1 = (if n \<in> set cs then h else h[p := (h ! p)\<lparr>priv_children := Some (cs @ [n])\<rparr>])"
    using add addChild_eq [OF p cs, of n] by simp
  have ok1: "heap_ok h1"
    unfolding h1 using ok p n cs by (rule heap_ok_add)
  have len: "length h1 = length h"
    by (simp add: h1)
  obtain cs1 where cs1: "priv_children (h1 ! p) = Some cs1" and d: "distinct cs1"
    using heap_okD(2) [OF ok1, of p] p len by auto
  have mem: "n \<in> set cs1"
    using cs cs1 p by (auto simp: h1 split: if_splits)
  have "set_parent h1 n (Some p) = addChild h1 p n"
    using set_parent_unset [of n h1 "Some p"] heap_okD(1) [OF ok1, of n] n len by simp
  also have "\<dots> = Inr h1"
    using addChild_eq [of p h1 cs1 n] cs1 mem p len by simp
  finally show ?thesis
    using cs1 mem d p len by (simp add: get_children_def)
qed

theorem attach_idempotent_witness:
  "run [] tiny_ops = Inr tiny_heap \<and> set_parent tiny_heap 2 (Some 0) = Inr (tiny_heap[0 := (tiny_heap ! 0)\<lparr>priv_children := Some [1, 2]\<rparr>])
    \<and> set_parent (tiny_heap[0 := (tiny_heap ! 0)\<lparr>priv_children := Some [1, 2]\<rparr>]) 2 (Some 0) = Inr (tiny_heap[0 := (tiny_heap ! 0)\<lparr>priv_children := Some [1, 2]\<rparr>])"
proof -
  have s: "set_parent tiny_heap 2 (Some 0) = Inr (tiny_heap[0 := (tiny_heap ! 0)\<lparr>priv_children := Some [1, 2]\<rparr>])"
    by (simp add: tiny_heap_def tree_defs)
  show ?thesis
    using attach_idempotent [OF run_tiny s] run_tiny s by simp
qed

text \<open>
  Claim C6. In every store reached through the public operations: the assignment to
  \<^verbatim>\<open>parent\<close> of a node, with \<^verbatim>\<open>null\<close> or a node as the value, returns a
  store; \<^verbatim>\<open>createPage\<close> on a notebook returns a new page and a store;
  \<^verbatim>\<open>addCell\<close> on a page returns a store; and when the store is acyclic (a rank
  decreases from each node to its children), \<^verbatim>\<open>export\<close> on a node of rank below
  the fuel returns with either exporter, without a failure. So the recursion ends at a
  depth of at most the rank of the node plus one.
\<close>

theorem operations_total:
  assumes "run [] ops = Inr h"
  shows "(n < length h \<and> (case v of None \<Rightarrow> True | Some q \<Rightarrow> q < length h) \<longrightarrow>
            (\<exists>h'. set_parent h n v = Inr h')) \<and>
         (n < length h \<and> kind (h ! n) = Notebook nt \<longrightarrow>
            (\<exists>h'. createPage h n t = Inr (length h, h'))) \<and>
         (p < length h \<and> kind (h ! p) = Page pt \<and> c < length h \<longrightarrow>
            (\<exists>h'. addCell h p c = Inr h')) \<and>
         (n < length h \<and> acyclic_by rank h \<and> rank n < fuel \<longrightarrow>
            (\<exists>e'. html_export fuel n (h, e) = Inr (h, e')) \<and>
            (\<exists>x'. xml_export fuel n (h, x) = Inr (h, x')))"
proof -
  have ok: "heap_ok h"
    using assms by (rule reachable_ok)
  have sp: "\<exists>h'. set_parent h m w = Inr h'"
    if "m < length h" "case w of None \<Rightarrow> True | Some q \<Rightarrow> q < length h" for m w
  proof (cases w)
    case None
    then show ?thesis
      using set_parent_unset [OF that(1) heap_okD(1) [OF ok that(1)], of w] by simp
  next
    case (Some q)
    then have "q < length h"
      using that(2) by simp
    then show ?thesis
      using set_parent_unset [OF that(1) heap_okD(1) [OF ok that(1)], of w] Some
        addChild_ok [OF ok _ that(1), of q]
      by auto
  qed
  have cp: "\<exists>h'. createPage h n t = Inr (length h, h')"
    if n: "n < length h" and k: "kind (h ! n) = Notebook nt"
  proof -
    obtain ps where "priv_children (h ! n) = Some ps"
      using heap_okD(2) [OF ok n] by blast
    then show ?thesis
      using createPage_eq [OF n k] new_node_Some [OF ok n] by simp
  qed
  have ac: "\<exists>h'. addCell h p c = Inr h'"
    if "p < length h" "kind (h ! p) = Page pt" "c < length h"
    using addCell_eq [OF that(1,2)] sp [of c "Some p"] that by simp
  have ex: "(\<exists>e'. html_export fuel n (h, e) = Inr (h, e')) \<and>
            (\<exists>x'. xml_export fuel n (h, x) = Inr (h, x'))"
    if "n < length h" "acyclic_by rank h" "rank n < fuel"
    using html_export_total [OF ok that(2,1,3)] xml_export_total [OF ok that(2,1,3)] by simp
  show ?thesis
    using sp [of n v] cp ac ex by blast
qed

theorem operations_total_witness:
  "run [] tiny_ops = Inr tiny_heap
   \<and> 2 < length tiny_heap \<and> (case Some 0 of None \<Rightarrow> True | Some q \<Rightarrow> q < length tiny_heap)
   \<and> (\<exists>h'. set_parent tiny_heap 2 (Some 0) = Inr h')
   \<and> 0 < length tiny_heap \<and> kind (tiny_heap ! 0) = Notebook ''N''
   \<and> (\<exists>h'. createPage tiny_heap 0 ''Q'' = Inr (length tiny_heap, h'))
   \<and> 1 < length tiny_heap \<and> kind (tiny_heap ! 1) = Page ''P''
   \<and> (\<exists>h'. addCell tiny_heap 1 2 = Inr h')
   \<and> acyclic_by (\<lambda>r. 2 - r) tiny_heap \<and> (2::nat) - 0 < 3
   \<and> (\<exists>e'. html_export 3 0 (tiny_heap, new_HtmlExporter) = Inr (tiny_heap, e'))
   \<and> (\<exists>x'. xml_export 3 0 (tiny_heap, new_XmlExporter) = Inr (tiny_heap, x'))"
proof -
  have a: "2 < length tiny_heap \<and> (case Some 0 of None \<Rightarrow> True | Some q \<Rightarrow> q < length tiny_heap)"
    by (simp add: tiny_heap_def)
  have b: "0 < length tiny_heap \<and> kind (tiny_heap ! 0) = Notebook ''N''"
    by (simp add: tiny_heap_def)
  have c: "1 < length tiny_heap \<and> kind (tiny_heap ! 1) = Page ''P'' \<and> 2 < length tiny_heap"
    by (simp add: tiny_heap_def)
  have d: "0 < length tiny_heap \<and> acyclic_by (\<lambda>r. 2 - r) tiny_heap \<and> (2::nat) - 0 < 3"
    by (simp add: tiny_heap_def acyclic_by_def upt_rec)
  note i1 = operations_total [OF run_tiny, where n = 2 and v = "Some 0" and p = 1 and c = 2
      and pt = "''P''" and fuel = 0]
  note i2 = operations_total [OF run_tiny, where n = 0 and v = None and nt = "''N''"
      and t = "''Q''" and p = 1 and c = 2 and pt = "''P''" and rank = "\<lambda>r. 2 - r" and fuel = 3
      and e = new_HtmlExporter and x = new_XmlExporter]
  show ?thesis
    using i1 i2 a b c d run_tiny by blast
qed

text \<open>
  Claim C7. Every operation of the two exporters (\<^verbatim>\<open>export\<close> on a node,
  \<^verbatim>\<open>exportNotebook\<close>, \<^verbatim>\<open>exportPage\<close>, \<^verbatim>\<open>exportTextCell\<close>,
  \<^verbatim>\<open>exportSourceCodeCell\<close>, \<^verbatim>\<open>exportImageCell\<close>) that returns leaves the
  object store as it found it: the class and attribute, the parent field and the
  children of every node are what they were.
\<close>

theorem export_frame:
  "(op \<in> set (html_operations fuel) \<and> op n s = Inr s' \<longrightarrow> fst s' = fst s) \<and>
   (xop \<in> set (xml_operations fuel) \<and> xop n x = Inr x' \<longrightarrow> fst x' = fst x)"
  using html_operations_frame [of op fuel n s s'] xml_operations_frame [of xop fuel n x x']
  by blast

theorem export_frame_witness:
  \<open>html_exportNotebook (html_export (Suc (Suc 0))) \<in> set (html_operations (Suc (Suc 0))) \<and>
   html_exportNotebook (html_export (Suc (Suc 0))) 0 (tiny_heap, new_HtmlExporter) =
     Inr (tiny_heap, \<lparr>priv_html = join_lines
       [''<main class="notebook">'', ''<h1>N</h1>'', ''<section class="page">'',
        ''<h2>P</h2>'', ''<p>T</p>'', ''</section>'', ''</main>'']\<rparr>) \<and>
   xml_exportNotebook (xml_export (Suc (Suc 0))) \<in> set (xml_operations (Suc (Suc 0))) \<and>
   xml_exportNotebook (xml_export (Suc (Suc 0))) 0 (tiny_heap, new_XmlExporter) =
     Inr (tiny_heap, \<lparr>priv_xml = xml new_XmlExporter @ join_lines
       [''<notebook title="N">'', ''<page title="P">'', ''<text>T</text>'', ''</page>'',
        ''</notebook>'']\<rparr>) \<and>
   fst (tiny_heap, \<lparr>priv_html = join_lines
       [''<main class="notebook">'', ''<h1>N</h1>'', ''<section class="page">'',
        ''<h2>P</h2>'', ''<p>T</p>'', ''</section>'', ''</main>'']\<rparr>) =
     fst (tiny_heap, new_HtmlExporter) \<and>
   fst (tiny_heap, \<lparr>priv_xml = xml new_XmlExporter @ join_lines
       [''<notebook title="N">'', ''<page title="P">'', ''<text>T</text>'', ''</page>'',
        ''</notebook>'']\<rparr>) =
     fst (tiny_heap, new_XmlExporter)\<close>
proof -
  have m1: "html_exportNotebook (html_export (Suc (Suc 0))) \<in> set (html_operations (Suc (Suc 0)))"
    by (simp add: html_operations_def)
  have m2: "xml_exportNotebook (xml_export (Suc (Suc 0))) \<in> set (xml_operations (Suc (Suc 0)))"
    by (simp add: xml_operations_def)
  note inst = export_frame [where op = "html_exportNotebook (html_export (Suc (Suc 0)))"
      and fuel = "Suc (Suc 0)" and n = 0 and s = "(tiny_heap, new_HtmlExporter)"
      and xop = "xml_exportNotebook (xml_export (Suc (Suc 0)))"
      and x = "(tiny_heap, new_XmlExporter)"]
  show ?thesis
    using inst m1 m2 tiny_html tiny_xml by blast
qed

text \<open>
  Claim C8, evaluated on the code. On a new notebook (object 0), \<^verbatim>\<open>createPage\<close>
  returns the new page (object 1), which is at once the only page of the notebook, and
  the parent getter of the page answers \<^verbatim>\<open>undefined\<close>. A new text cell
  (object 2) is then added to the page with \<^verbatim>\<open>addCell\<close>: the cell is the only
  cell of the page, and the parent getter of the cell answers \<^verbatim>\<open>undefined\<close>.
  The claim says that the page has the notebook as its parent and that the parent of the
  cell is set to the page.
\<close>

theorem createPage_addCell_parent_unset:
  "bindR (run [] [NewNotebook ''N''])
     (\<lambda>h. bindR (createPage h 0 ''P'')
        (\<lambda>r. Inr (fst r, kind (snd r ! fst r), pages (snd r) 0, get_parent (snd r) (fst r))))
     = Inr (1, Page ''P'', Inr (Some [1]), Inr None) \<and>
   bindR (run [] [NewNotebook ''N'', CreatePage 0 ''P'', NewTextCell ''T''])
     (\<lambda>h. bindR (addCell h 1 2) (\<lambda>h'. Inr (cells h' 1, get_parent h' 2)))
     = Inr (Inr (Some [2]), Inr None)"
  by (simp add: tree_defs)

text \<open>
  Claim C9. \<^verbatim>\<open>appendHtmlLine\<close> and \<^verbatim>\<open>appendXmlLine\<close> put a newline and the
  line at the end of the buffer, and the accessors \<^verbatim>\<open>html\<close> and \<^verbatim>\<open>xml\<close>
  return the whole buffer. Every exporter operation run on a buffer gives the buffer
  followed by what the operation writes on an empty buffer (and fails exactly when it
  fails there): it only appends. So a second \<^verbatim>\<open>exportNotebook\<close> on the same
  exporter gives the first serialization followed by the same serialization again; for
  the XML exporter the preamble stays in front, once.
\<close>

theorem buffer_accumulates:
  "html (appendHtmlLine e l) = html e @ CHR 0x0A # l \<and>
   xml (appendXmlLine x l) = xml x @ CHR 0x0A # l \<and>
   (op \<in> set (html_operations fuel) \<longrightarrow>
      op n (h, e) =
        bindR (op n (h, new_HtmlExporter))
          (\<lambda>s'. Inr (fst s', \<lparr>priv_html = html e @ html (snd s')\<rparr>))) \<and>
   (xop \<in> set (xml_operations fuel) \<longrightarrow>
      xop n (h, x) =
        bindR (xop n (h, xml_empty))
          (\<lambda>s'. Inr (fst s', \<lparr>priv_xml = xml x @ xml (snd s')\<rparr>))) \<and>
   (html_exportNotebook (html_export fuel) n (h, new_HtmlExporter) = Inr (h', e1) \<longrightarrow>
      html_exportNotebook (html_export fuel) n (h', e1) =
        Inr (h', \<lparr>priv_html = html e1 @ html e1\<rparr>)) \<and>
   (xml_exportNotebook (xml_export fuel) n (h, new_XmlExporter) = Inr (h', x1) \<longrightarrow>
      (\<exists>out. xml x1 = xml new_XmlExporter @ out \<and>
         xml_exportNotebook (xml_export fuel) n (h', x1) =
           Inr (h', \<lparr>priv_xml = xml new_XmlExporter @ out @ out\<rparr>)))"
proof (intro conjI impI)
  show "html (appendHtmlLine e l) = html e @ CHR 0x0A # l"
    by (simp add: html_def appendHtmlLine_def)
  show "xml (appendXmlLine x l) = xml x @ CHR 0x0A # l"
    by (simp add: xml_def appendXmlLine_def)
  show "op n (h, e) =
      bindR (op n (h, new_HtmlExporter))
        (\<lambda>s'. Inr (fst s', \<lparr>priv_html = html e @ html (snd s')\<rparr>))"
    if "op \<in> set (html_operations fuel)"
    using html_operations_append [OF that, of n h e] by (simp add: html_prefixed_def html_def)
  show "xop n (h, x) =
      bindR (xop n (h, xml_empty))
        (\<lambda>s'. Inr (fst s', \<lparr>priv_xml = xml x @ xml (snd s')\<rparr>))"
    if "xop \<in> set (xml_operations fuel)"
    using xml_operations_append [OF that, of n h x] by (simp add: xml_prefixed_def xml_def)
  show "html_exportNotebook (html_export fuel) n (h', e1) =
      Inr (h', \<lparr>priv_html = html e1 @ html e1\<rparr>)"
    if run: "html_exportNotebook (html_export fuel) n (h, new_HtmlExporter) = Inr (h', e1)"
  proof -
    have "h' = h"
      using html_exportNotebook_frame [OF html_export_frame run] by simp
    then show ?thesis
      using html_exportNotebook_append [of "html_export fuel" n h e1, OF html_export_append] run
      by (simp add: html_prefixed_def html_def)
  qed
  show "\<exists>out. xml x1 = xml new_XmlExporter @ out \<and>
         xml_exportNotebook (xml_export fuel) n (h', x1) =
           Inr (h', \<lparr>priv_xml = xml new_XmlExporter @ out @ out\<rparr>)"
    if run: "xml_exportNotebook (xml_export fuel) n (h, new_XmlExporter) = Inr (h', x1)"
  proof -
    have h': "h' = h"
      using xml_exportNotebook_frame [OF xml_export_frame run] by simp
    obtain s0 where s0: "xml_exportNotebook (xml_export fuel) n (h, xml_empty) = Inr s0"
      and x1: "(h', x1) = xml_prefixed (priv_xml new_XmlExporter) s0"
      using run
        xml_exportNotebook_append [of "xml_export fuel" n h new_XmlExporter,
          OF xml_export_append]
      by (auto simp: bindR_eq_Inr)
    have "xml_exportNotebook (xml_export fuel) n (h, x1) = Inr (xml_prefixed (priv_xml x1) s0)"
      using xml_exportNotebook_append [of "xml_export fuel" n h x1, OF xml_export_append] s0
      by simp
    then show ?thesis
      using x1 h' by (intro exI [of _ "priv_xml (snd s0)"]) (auto simp: xml_prefixed_def xml_def)
  qed
qed

theorem buffer_accumulates_witness:
  \<open>html_exportNotebook (html_export (Suc (Suc 0))) \<in> set (html_operations (Suc (Suc 0))) \<and>
   xml_exportNotebook (xml_export (Suc (Suc 0))) \<in> set (xml_operations (Suc (Suc 0))) \<and>
   html_exportNotebook (html_export (Suc (Suc 0))) 0 (tiny_heap, new_HtmlExporter) =
     Inr (tiny_heap, \<lparr>priv_html = join_lines
       [''<main class="notebook">'', ''<h1>N</h1>'', ''<section class="page">'',
        ''<h2>P</h2>'', ''<p>T</p>'', ''</section>'', ''</main>'']\<rparr>) \<and>
   xml_exportNotebook (xml_export (Suc (Suc 0))) 0 (tiny_heap, new_XmlExporter) =
     Inr (tiny_heap, \<lparr>priv_xml = xml new_XmlExporter @ join_lines
       [''<notebook title="N">'', ''<page title="P">'', ''<text>T</text>'', ''</page>'',
        ''</notebook>'']\<rparr>) \<and>
   html_exportNotebook (html_export (Suc (Suc 0))) 0
       (tiny_heap, \<lparr>priv_html = join_lines
         [''<main class="notebook">'', ''<h1>N</h1>'', ''<section class="page">'',
          ''<h2>P</h2>'', ''<p>T</p>'', ''</section>'', ''</main>'']\<rparr>) =
     Inr (tiny_heap, \<lparr>priv_html = join_lines
       [''<main class="notebook">'', ''<h1>N</h1>'', ''<section class="page">'',
        ''<h2>P</h2>'', ''<p>T</p>'', ''</section>'', ''</main>'',
        ''<main class="notebook">'', ''<h1>N</h1>'', ''<section class="page">'',
        ''<h2>P</h2>'', ''<p>T</p>'', ''</section>'', ''</main>'']\<rparr>) \<and>
   (\<exists>out. xml_exportNotebook (xml_export (Suc (Suc 0))) 0
       (tiny_heap, \<lparr>priv_xml = xml new_XmlExporter @ join_lines
         [''<notebook title="N">'', ''<page title="P">'', ''<text>T</text>'', ''</page>'',
          ''</notebook>'']\<rparr>) =
     Inr (tiny_heap, \<lparr>priv_xml = xml new_XmlExporter @ out @ out\<rparr>))\<close>
proof -
  have m1: "html_exportNotebook (html_export (Suc (Suc 0))) \<in> set (html_operations (Suc (Suc 0)))"
    by (simp add: html_operations_def)
  have m2: "xml_exportNotebook (xml_export (Suc (Suc 0))) \<in> set (xml_operations (Suc (Suc 0)))"
    by (simp add: xml_operations_def)
  note inst = buffer_accumulates [where op = "html_exportNotebook (html_export (Suc (Suc 0)))"
      and xop = "xml_exportNotebook (xml_export (Suc (Suc 0)))"
      and fuel = "Suc (Suc 0)" and n = 0 and h = tiny_heap and h' = tiny_heap,
      THEN conjunct2, THEN conjunct2, THEN conjunct2, THEN conjunct2]
  have h2: \<open>html_exportNotebook (html_export (Suc (Suc 0))) 0
       (tiny_heap, \<lparr>priv_html = join_lines
         [''<main class="notebook">'', ''<h1>N</h1>'', ''<section class="page">'',
          ''<h2>P</h2>'', ''<p>T</p>'', ''</section>'', ''</main>'']\<rparr>) =
     Inr (tiny_heap, \<lparr>priv_html = join_lines
       [''<main class="notebook">'', ''<h1>N</h1>'', ''<section class="page">'',
        ''<h2>P</h2>'', ''<p>T</p>'', ''</section>'', ''</main>'',
        ''<main class="notebook">'', ''<h1>N</h1>'', ''<section class="page">'',
        ''<h2>P</h2>'', ''<p>T</p>'', ''</section>'', ''</main>'']\<rparr>)\<close>
    using inst [THEN conjunct1, rule_format, OF tiny_html]
    by (simp add: html_def join_lines_def del: html_export.simps)
  have x2: \<open>\<exists>out. xml_exportNotebook (xml_export (Suc (Suc 0))) 0
       (tiny_heap, \<lparr>priv_xml = xml new_XmlExporter @ join_lines
         [''<notebook title="N">'', ''<page title="P">'', ''<text>T</text>'', ''</page>'',
          ''</notebook>'']\<rparr>) =
     Inr (tiny_heap, \<lparr>priv_xml = xml new_XmlExporter @ out @ out\<rparr>)\<close>
    using inst [THEN conjunct2, rule_format, OF tiny_xml] by blast
  show ?thesis
    using m1 m2 tiny_html tiny_xml h2 x2 by blast
qed

text \<open>
  Claim C10. \<^verbatim>\<open>export\<close> with a new exporter on a cell, in any store, gives the
  single line of the cell (after the preamble, for XML). On a page whose children are
  cells it gives the opening line with the title of the page (for HTML, the line of the
  section and the line of the heading), the lines of its cells in their order, and the
  closing line. Nothing of a notebook is written, and whether the node is a child of
  some node plays no role.
\<close>

theorem export_subtree:
  \<open>(c < length h \<and> is_cell (kind (h ! c)) \<longrightarrow>
      html_export (Suc f) c (h, new_HtmlExporter) =
        Inr (h, \<lparr>priv_html = join_lines [html_cell_line (kind (h ! c))]\<rparr>) \<and>
      xml_export (Suc f) c (h, new_XmlExporter) =
        Inr (h, \<lparr>priv_xml = xml new_XmlExporter @ join_lines [xml_cell_line (kind (h ! c))]\<rparr>)) \<and>
   (kind (h ! p) = Page t \<and> cells h p = Inr (Some cs) \<and>
    (\<forall>c \<in> set cs. c < length h \<and> is_cell (kind (h ! c))) \<longrightarrow>
      html_export (Suc (Suc f)) p (h, new_HtmlExporter) =
        Inr (h, \<lparr>priv_html = join_lines
          ([''<section class="page">'', ''<h2>'' @ t @ ''</h2>'']
             @ map (\<lambda>c. html_cell_line (kind (h ! c))) cs @ [''</section>''])\<rparr>) \<and>
      xml_export (Suc (Suc f)) p (h, new_XmlExporter) =
        Inr (h, \<lparr>priv_xml = xml new_XmlExporter @ join_lines
          ([''<page title="'' @ t @ ''">'']
             @ map (\<lambda>c. xml_cell_line (kind (h ! c))) cs @ [''</page>''])\<rparr>))\<close>
proof (intro conjI impI)
  assume a: "c < length h \<and> is_cell (kind (h ! c))"
  show "html_export (Suc f) c (h, new_HtmlExporter) =
        Inr (h, \<lparr>priv_html = join_lines [html_cell_line (kind (h ! c))]\<rparr>)"
    using a html_export_cell [of c h f new_HtmlExporter]
    by (simp add: join_lines_def appendHtmlLine_def new_HtmlExporter_def
        del: html_export.simps)
  show "xml_export (Suc f) c (h, new_XmlExporter) =
        Inr (h, \<lparr>priv_xml = xml new_XmlExporter @ join_lines [xml_cell_line (kind (h ! c))]\<rparr>)"
    using a xml_export_cell [of c h f new_XmlExporter]
    by (simp add: join_lines_def appendXmlLine_def xml_def del: xml_export.simps)
next
  assume a: "kind (h ! p) = Page t \<and> cells h p = Inr (Some cs) \<and>
    (\<forall>c \<in> set cs. c < length h \<and> is_cell (kind (h ! c)))"
  then have p: "p < length h" and cs: "priv_children (h ! p) = Some cs"
    using cells_Some [of h p cs] by simp_all
  have k: "kind (h ! p) = Page t"
    and kids: "\<forall>c \<in> set cs. c < length h \<and> is_cell (kind (h ! c))"
    using a by simp_all
  show \<open>html_export (Suc (Suc f)) p (h, new_HtmlExporter) =
        Inr (h, \<lparr>priv_html = join_lines
          ([''<section class="page">'', ''<h2>'' @ t @ ''</h2>'']
             @ map (\<lambda>c. html_cell_line (kind (h ! c))) cs @ [''</section>''])\<rparr>)\<close>
    using p k cs kids by (rule html_export_page)
  show \<open>xml_export (Suc (Suc f)) p (h, new_XmlExporter) =
        Inr (h, \<lparr>priv_xml = xml new_XmlExporter @ join_lines
          ([''<page title="'' @ t @ ''">'']
             @ map (\<lambda>c. xml_cell_line (kind (h ! c))) cs @ [''</page>''])\<rparr>)\<close>
    using p k cs kids by (rule xml_export_page)
qed

theorem export_subtree_witness:
  \<open>2 < length tiny_heap \<and> is_cell (kind (tiny_heap ! 2)) \<and>
   kind (tiny_heap ! 1) = Page ''P'' \<and> cells tiny_heap 1 = Inr (Some [2]) \<and>
   html_export (Suc 0) 2 (tiny_heap, new_HtmlExporter) =
     Inr (tiny_heap, \<lparr>priv_html = join_lines [''<p>T</p>'']\<rparr>) \<and>
   xml_export (Suc 0) 2 (tiny_heap, new_XmlExporter) =
     Inr (tiny_heap, \<lparr>priv_xml = xml new_XmlExporter @ join_lines [''<text>T</text>'']\<rparr>) \<and>
   html_export (Suc (Suc 0)) 1 (tiny_heap, new_HtmlExporter) =
     Inr (tiny_heap, \<lparr>priv_html = join_lines
       [''<section class="page">'', ''<h2>P</h2>'', ''<p>T</p>'', ''</section>'']\<rparr>) \<and>
   xml_export (Suc (Suc 0)) 1 (tiny_heap, new_XmlExporter) =
     Inr (tiny_heap, \<lparr>priv_xml = xml new_XmlExporter @ join_lines
       [''<page title="P">'', ''<text>T</text>'', ''</page>'']\<rparr>)\<close>
proof -
  have a: "2 < length tiny_heap \<and> is_cell (kind (tiny_heap ! 2))"
    by (simp add: tiny_heap_def)
  have b: "kind (tiny_heap ! 1) = Page ''P'' \<and> cells tiny_heap 1 = Inr (Some [2]) \<and>
      (\<forall>c \<in> set [2]. c < length tiny_heap \<and> is_cell (kind (tiny_heap ! c)))"
    by (simp add: tiny_heap_def cells_def get_children_def)
  have k: "html_cell_line (kind (tiny_heap ! 2)) = ''<p>T</p>''"
    "xml_cell_line (kind (tiny_heap ! 2)) = ''<text>T</text>''"
    by (simp_all add: tiny_heap_def)
  note inst = export_subtree [where h = tiny_heap and c = 2 and p = 1 and t = "''P''"
      and cs = "[2]" and f = 0]
  have "html_export (Suc 0) 2 (tiny_heap, new_HtmlExporter) =
      Inr (tiny_heap, \<lparr>priv_html = join_lines [''<p>T</p>'']\<rparr>)"
    and "xml_export (Suc 0) 2 (tiny_heap, new_XmlExporter) =
      Inr (tiny_heap, \<lparr>priv_xml = xml new_XmlExporter @ join_lines [''<text>T</text>'']\<rparr>)"
    and "html_export (Suc (Suc 0)) 1 (tiny_heap, new_HtmlExporter) =
      Inr (tiny_heap, \<lparr>priv_html = join_lines
        [''<section class=\"page\">'', ''<h2>P</h2>'', ''<p>T</p>'', ''</section>'']\<rparr>)"
    and "xml_export (Suc (Suc 0)) 1 (tiny_heap, new_XmlExporter) =
      Inr (tiny_heap, \<lparr>priv_xml = xml new_XmlExporter @ join_lines
        [''<page title=\"P\">'', ''<text>T</text>'', ''</page>'']\<rparr>)"
    using inst a b k by (simp_all del: html_export.simps xml_export.simps)
  then show ?thesis
    using a b by blast
qed

end
